(* ===== verification/Prelude.thy ===== *)
theory Prelude
  imports Main
begin

text \<open>
  Shared ground of the development: the names of the types every component uses (byte
  strings, error values, results that may panic), Go's 64-bit machine integers with the
  wrap-around written out, and the generic lemmas on lists and options that the component
  theories apply again and again. Nothing here models a line of the repository; the
  theories that do import this one.
\<close>

section \<open>Collections of facts\<close>

named_theorems chan_laws
  \<open>what a bounded channel promises to the components that use one\<close>

section \<open>Types\<close>

text \<open>
  A Go \<open>string\<close> and a \<open>[]byte\<close> are both sequences of bytes; \<open>char\<close> has 256 values, so both
  are lists of \<open>char\<close>. An \<open>error\<close> is modelled by its message (the value of \<open>err.Error()\<close>),
  because the code inspects nothing else of it.
\<close>

type_synonym bytes = "char list"
type_synonym error = string

text \<open>
  A computation of the source that can panic (an index out of range, a send on a closed
  channel, a nil dereference) has an \<open>outcome\<close>; one that returns an error value has a sum.
\<close>

datatype 'a outcome = Ret 'a | Panic string

fun then_do :: "'a outcome \<Rightarrow> ('a \<Rightarrow> 'b outcome) \<Rightarrow> 'b outcome" where
  "then_do (Ret x) f = f x"
| "then_do (Panic m) f = Panic m"

fun returns :: "'a outcome \<Rightarrow> bool" where
  "returns (Ret x) = True"
| "returns (Panic m) = False"

section \<open>Go's int on a 64-bit machine\<close>

text \<open>
  \<open>int\<close>, \<open>int64\<close> and \<open>time.Duration\<close> are 64-bit two's complement values. The models carry
  them as \<open>int\<close> and apply \<open>wrap64\<close> where an arithmetic operation can leave the range.
\<close>

definition in_int64 :: "int \<Rightarrow> bool" where
  "in_int64 x \<longleftrightarrow> - (2 ^ 63) \<le> x \<and> x < 2 ^ 63"

definition wrap64 :: "int \<Rightarrow> int" where
  "wrap64 x = (x + 2 ^ 63) mod 2 ^ 64 - 2 ^ 63"

definition second :: int where
  "second = 1000000000"

definition millisecond :: int where
  "millisecond = 1000000"

section \<open>Generic lemmas\<close>

lemma wrap64_in_range [simp, intro]: "in_int64 (wrap64 x)"
proof -
  have "0 \<le> (x + 2 ^ 63) mod 2 ^ 64" by simp
  moreover have "(x + 2 ^ 63) mod 2 ^ 64 < 2 ^ 64" by simp
  ultimately show ?thesis by (simp add: in_int64_def wrap64_def)
qed

lemma wrap64_id: "in_int64 x \<Longrightarrow> wrap64 x = x"
  by (simp add: in_int64_def wrap64_def)

lemma then_do_Ret [simp]: "then_do m Ret = m"
  by (cases m) auto

lemma then_do_cong:
  "(\<And>x. m = Ret x \<Longrightarrow> f x = g x) \<Longrightarrow> then_do m f = then_do m g"
  by (cases m) auto

lemma then_do_assoc: "then_do (then_do m f) g = then_do m (\<lambda>x. then_do (f x) g)"
  by (cases m) auto

lemma then_do_eq_Ret: "then_do m f = Ret y \<longleftrightarrow> (\<exists>x. m = Ret x \<and> f x = Ret y)"
  by (cases m) auto

lemma returns_iff: "returns m \<longleftrightarrow> (\<exists>x. m = Ret x)"
  by (cases m) auto

lemma take_last_nth: "n < length xs \<Longrightarrow> drop n xs = xs ! n # drop (Suc n) xs"
  by (simp add: Cons_nth_drop_Suc)

lemma dropWhile_set_last: "dropWhile P xs = y # ys \<Longrightarrow> \<not> P y"
  using hd_dropWhile [of P xs] by auto

lemma rev_dropWhile_rev_snoc:
  "rev (dropWhile P (rev (xs @ [x]))) = (if P x then rev (dropWhile P (rev xs)) else xs @ [x])"
  by simp

lemma sum_list_map_nonneg: "(\<And>x. x \<in> set xs \<Longrightarrow> 0 \<le> f x) \<Longrightarrow> 0 \<le> sum_list (map f xs)" for f :: "'a \<Rightarrow> int"
  by (induction xs) auto

end
