(* ===== verification/Config.thy ===== *)
theory Config
  imports Complex_Main Prelude
begin

text \<open>
  \<open>internal/config/config.go\<close>: the configuration records and \<open>applyDefaults\<close>, section by
  section in the order of the source. A duration is its count of nanoseconds. \<open>StopBits\<close> is a
  Go \<open>float64\<close> that the code only compares with 0, 1.5 and 2; it is a rational here. \<open>Load\<close> takes the
  result of reading the file and the YAML decoder (a library outside the repository) as
  arguments.
\<close>

section \<open>The configuration records\<close>

record GatewayConfig =
  HTTPPort :: int

record SerialDefaults =
  sd_Baudrate :: int
  sd_Timeout :: int
  sd_ByteSize :: int
  sd_Parity :: string
  sd_StopBits :: rat
  sd_WriteTimeout :: int
  sd_ExecSilenceTimeout :: int
  sd_ExecMaxDuration :: int

record SSHAuth =
  auth_Type :: string
  auth_Password :: string
  auth_PublicKeys :: "string list"

record SSHConfig =
  BasePort :: int
  Auth :: SSHAuth

record ReconnectConfig =
  InitialInterval :: int
  MaxInterval :: int
  DiscardInputOnDisconnect :: bool

record RingBufferConfig =
  rbc_MaxLines :: int
  rbc_MaxBytes :: int

record PortConfig =
  pc_Device :: string
  pc_Baudrate :: int

record ReverseTunnelConfig =
  rt_Name :: string
  rt_Kind :: string
  rt_Host :: string
  rt_Port :: int
  rt_User :: string
  rt_Password :: string
  rt_PrivateKeyFile :: string
  rt_RemotePort :: int
  rt_TargetHost :: string
  rt_LocalPort :: int
  rt_BindAddress :: string
  rt_Mode :: string
  rt_TargetUser :: string
  rt_TargetPassword :: string
  rt_TargetPrivateKey :: string

record FileRecordingConfig =
  fr_OutputDir :: string
  fr_MaxSizeMB :: int
  fr_TrimSizeMB :: int

record LoggingConfig =
  lc_Level :: string
  lc_Format :: string
  lc_Output :: string
  lc_FilePath :: string
  lc_MaxSizeMB :: int
  lc_MaxAgeDays :: int
  lc_MaxBackups :: int
  lc_Compress :: bool

record Config =
  Gateway :: GatewayConfig
  Serial_Defaults :: SerialDefaults
  Ring_Buffer :: RingBufferConfig
  SSH :: SSHConfig
  Reconnect :: ReconnectConfig
  ReverseTunnel :: ReverseTunnelConfig
  AdbReverseTunnel :: ReverseTunnelConfig
  SerialSSHTunnel :: ReverseTunnelConfig
  ReverseTunnels :: "ReverseTunnelConfig list"
  FileRecording :: FileRecordingConfig
  Logging :: LoggingConfig
  Ports :: "PortConfig list"

section \<open>The zero value\<close>

definition zero_tunnel :: ReverseTunnelConfig where
  "zero_tunnel = \<lparr>rt_Name = '''', rt_Kind = '''', rt_Host = '''', rt_Port = 0, rt_User = '''',
     rt_Password = '''', rt_PrivateKeyFile = '''', rt_RemotePort = 0, rt_TargetHost = '''',
     rt_LocalPort = 0, rt_BindAddress = '''', rt_Mode = '''', rt_TargetUser = '''',
     rt_TargetPassword = '''', rt_TargetPrivateKey = ''''\<rparr>"

definition zero_config :: Config where
  "zero_config =
     \<lparr>Gateway = \<lparr>HTTPPort = 0\<rparr>,
      Serial_Defaults = \<lparr>sd_Baudrate = 0, sd_Timeout = 0, sd_ByteSize = 0, sd_Parity = '''',
        sd_StopBits = 0, sd_WriteTimeout = 0, sd_ExecSilenceTimeout = 0, sd_ExecMaxDuration = 0\<rparr>,
      Ring_Buffer = \<lparr>rbc_MaxLines = 0, rbc_MaxBytes = 0\<rparr>,
      SSH = \<lparr>BasePort = 0, Auth = \<lparr>auth_Type = '''', auth_Password = '''', auth_PublicKeys = []\<rparr>\<rparr>,
      Reconnect = \<lparr>InitialInterval = 0, MaxInterval = 0, DiscardInputOnDisconnect = False\<rparr>,
      ReverseTunnel = zero_tunnel, AdbReverseTunnel = zero_tunnel, SerialSSHTunnel = zero_tunnel,
      ReverseTunnels = [],
      FileRecording = \<lparr>fr_OutputDir = '''', fr_MaxSizeMB = 0, fr_TrimSizeMB = 0\<rparr>,
      Logging = \<lparr>lc_Level = '''', lc_Format = '''', lc_Output = '''', lc_FilePath = '''',
        lc_MaxSizeMB = 0, lc_MaxAgeDays = 0, lc_MaxBackups = 0, lc_Compress = False\<rparr>,
      Ports = []\<rparr>"

section \<open>applyDefaults\<close>

text \<open>The statement \<open>if f == zero { f = d }\<close>.\<close>

definition default_to :: "'a \<Rightarrow> 'a \<Rightarrow> 'a \<Rightarrow> 'a" where
  "default_to zero d x = (if x = zero then d else x)"

definition default_serial :: "SerialDefaults \<Rightarrow> SerialDefaults" where
  "default_serial s = s
     \<lparr>sd_Baudrate := default_to 0 115200 (sd_Baudrate s),
      sd_Timeout := default_to 0 (5 * second) (sd_Timeout s),
      sd_ByteSize := default_to 0 8 (sd_ByteSize s),
      sd_Parity := default_to '''' ''N'' (sd_Parity s),
      sd_StopBits := default_to 0 1 (sd_StopBits s),
      sd_WriteTimeout := default_to 0 (10 * second) (sd_WriteTimeout s),
      sd_ExecSilenceTimeout := default_to 0 (5 * second) (sd_ExecSilenceTimeout s),
      sd_ExecMaxDuration := default_to 0 (30 * second) (sd_ExecMaxDuration s)\<rparr>"

definition default_ring :: "RingBufferConfig \<Rightarrow> RingBufferConfig" where
  "default_ring r = r
     \<lparr>rbc_MaxLines := default_to 0 100000 (rbc_MaxLines r),
      rbc_MaxBytes := default_to 0 10485760 (rbc_MaxBytes r)\<rparr>"

definition default_ssh :: "SSHConfig \<Rightarrow> SSHConfig" where
  "default_ssh s = s
     \<lparr>BasePort := default_to 0 2200 (BasePort s),
      Auth := (Auth s)\<lparr>auth_Type := default_to '''' ''password'' (auth_Type (Auth s))\<rparr>\<rparr>"

definition default_reconnect :: "ReconnectConfig \<Rightarrow> ReconnectConfig" where
  "default_reconnect r = r
     \<lparr>InitialInterval := default_to 0 (1 * second) (InitialInterval r),
      MaxInterval := default_to 0 (30 * second) (MaxInterval r)\<rparr>"

text \<open>The named reverse tunnel: \<open>local_port\<close> falls back to the gateway's HTTP port.\<close>

definition default_reverse :: "int \<Rightarrow> ReverseTunnelConfig \<Rightarrow> ReverseTunnelConfig" where
  "default_reverse http t =
     (if rt_Host t \<noteq> '''' then t
        \<lparr>rt_Port := default_to 0 22 (rt_Port t),
         rt_User := default_to '''' ''root'' (rt_User t),
         rt_RemotePort := default_to 0 18080 (rt_RemotePort t),
         rt_TargetHost := default_to '''' ''127.0.0.1'' (rt_TargetHost t),
         rt_Mode := default_to '''' ''tcp'' (rt_Mode t),
         rt_LocalPort := default_to 0 http (rt_LocalPort t),
         rt_BindAddress := default_to '''' ''0.0.0.0'' (rt_BindAddress t)\<rparr>
      else t)"

definition default_adb :: "ReverseTunnelConfig \<Rightarrow> ReverseTunnelConfig" where
  "default_adb t =
     (if rt_Host t \<noteq> '''' then t
        \<lparr>rt_Port := default_to 0 22 (rt_Port t),
         rt_User := default_to '''' ''root'' (rt_User t),
         rt_RemotePort := default_to 0 15037 (rt_RemotePort t),
         rt_TargetHost := default_to '''' ''127.0.0.1'' (rt_TargetHost t),
         rt_Mode := default_to '''' ''tcp'' (rt_Mode t),
         rt_LocalPort := default_to 0 5037 (rt_LocalPort t),
         rt_BindAddress := default_to '''' ''0.0.0.0'' (rt_BindAddress t)\<rparr>
      else t)"

definition default_serial_ssh :: "ReverseTunnelConfig \<Rightarrow> ReverseTunnelConfig" where
  "default_serial_ssh t =
     (if rt_Host t \<noteq> '''' then t
        \<lparr>rt_Port := default_to 0 22 (rt_Port t),
         rt_User := default_to '''' ''root'' (rt_User t),
         rt_BindAddress := default_to '''' ''0.0.0.0'' (rt_BindAddress t)\<rparr>
      else t)"

text \<open>One iteration of the loop over \<open>reverse_tunnels\<close>.\<close>

definition default_entry :: "ReverseTunnelConfig \<Rightarrow> ReverseTunnelConfig" where
  "default_entry t =
     (if rt_Host t = '''' then t
      else let t' = t
        \<lparr>rt_Port := default_to 0 22 (rt_Port t),
         rt_User := default_to '''' ''root'' (rt_User t),
         rt_Mode := default_to '''' ''tcp'' (rt_Mode t),
         rt_BindAddress := default_to '''' ''0.0.0.0'' (rt_BindAddress t)\<rparr>
      in if rt_Kind t' \<noteq> ''serial_ssh'' \<and> rt_TargetHost t' = ''''
         then t'\<lparr>rt_TargetHost := ''127.0.0.1''\<rparr> else t')"

definition default_logging :: "LoggingConfig \<Rightarrow> LoggingConfig" where
  "default_logging l = l
     \<lparr>lc_Level := default_to '''' ''info'' (lc_Level l),
      lc_Format := default_to '''' ''text'' (lc_Format l),
      lc_Output := default_to '''' ''stdout'' (lc_Output l),
      lc_FilePath := default_to '''' ''gateway.log'' (lc_FilePath l),
      lc_MaxSizeMB := default_to 0 100 (lc_MaxSizeMB l),
      lc_MaxAgeDays := default_to 0 30 (lc_MaxAgeDays l),
      lc_MaxBackups := default_to 0 7 (lc_MaxBackups l)\<rparr>"

definition default_recording :: "FileRecordingConfig \<Rightarrow> FileRecordingConfig" where
  "default_recording f = f
     \<lparr>fr_OutputDir := default_to '''' ''./serial_logs'' (fr_OutputDir f),
      fr_MaxSizeMB := default_to 0 1024 (fr_MaxSizeMB f),
      fr_TrimSizeMB := default_to 0 100 (fr_TrimSizeMB f)\<rparr>"

definition applyDefaults :: "Config \<Rightarrow> Config" where
  "applyDefaults c =
     (let http = default_to 0 8080 (HTTPPort (Gateway c)) in c
        \<lparr>Gateway := (Gateway c)\<lparr>HTTPPort := http\<rparr>,
         Serial_Defaults := default_serial (Serial_Defaults c),
         Ring_Buffer := default_ring (Ring_Buffer c),
         SSH := default_ssh (SSH c),
         Reconnect := default_reconnect (Reconnect c),
         ReverseTunnel := default_reverse http (ReverseTunnel c),
         AdbReverseTunnel := default_adb (AdbReverseTunnel c),
         SerialSSHTunnel := default_serial_ssh (SerialSSHTunnel c),
         ReverseTunnels := map default_entry (ReverseTunnels c),
         Logging := default_logging (Logging c),
         FileRecording := default_recording (FileRecording c)\<rparr>)"

definition ApplyDefaults :: "Config \<Rightarrow> Config" where
  "ApplyDefaults c = applyDefaults c"

section \<open>Load\<close>

text \<open>
  What \<open>os.ReadFile\<close> can give: the contents, an error that \<open>os.IsNotExist\<close> recognises, or
  another error. \<open>unmarshal\<close> is the YAML decoder filling a zero \<open>Config\<close>.
\<close>

datatype read_result = ReadOk bytes | ReadNotExist | ReadErr error

fun Load :: "(bytes \<Rightarrow> Config \<Rightarrow> error + Config) \<Rightarrow> read_result \<Rightarrow> error + Config" where
  "Load unmarshal ReadNotExist = Inr (applyDefaults zero_config)"
| "Load unmarshal (ReadErr e) = Inl e"
| "Load unmarshal (ReadOk data) =
     (case unmarshal data zero_config of
        Inl e \<Rightarrow> Inl e
      | Inr cfg \<Rightarrow> Inr (applyDefaults cfg))"

section \<open>What applyDefaults guarantees\<close>

text \<open>
  \<open>filled_tunnel\<close> and \<open>filled\<close> say that no defaulted field still has its zero value; they are
  the specification \<open>applyDefaults\<close> is measured against.
\<close>

definition filled_conn :: "ReverseTunnelConfig \<Rightarrow> bool" where
  "filled_conn t \<longleftrightarrow> rt_Port t \<noteq> 0 \<and> rt_User t \<noteq> '''' \<and> rt_BindAddress t \<noteq> ''''"

definition filled_tunnel :: "ReverseTunnelConfig \<Rightarrow> bool" where
  "filled_tunnel t \<longleftrightarrow> filled_conn t \<and> rt_RemotePort t \<noteq> 0 \<and> rt_TargetHost t \<noteq> '''' \<and>
     rt_Mode t \<noteq> '''' \<and> rt_LocalPort t \<noteq> 0"

definition filled_entry :: "ReverseTunnelConfig \<Rightarrow> bool" where
  "filled_entry t \<longleftrightarrow> filled_conn t \<and> rt_Mode t \<noteq> '''' \<and>
     (rt_Kind t = ''serial_ssh'' \<or> rt_TargetHost t \<noteq> '''')"

definition filled_serial :: "SerialDefaults \<Rightarrow> bool" where
  "filled_serial s \<longleftrightarrow> sd_Baudrate s \<noteq> 0 \<and> sd_Timeout s \<noteq> 0 \<and> sd_ByteSize s \<noteq> 0 \<and>
     sd_Parity s \<noteq> '''' \<and> sd_StopBits s \<noteq> 0 \<and> sd_WriteTimeout s \<noteq> 0 \<and>
     sd_ExecSilenceTimeout s \<noteq> 0 \<and> sd_ExecMaxDuration s \<noteq> 0"

definition filled_logging :: "LoggingConfig \<Rightarrow> bool" where
  "filled_logging l \<longleftrightarrow> lc_Level l \<noteq> '''' \<and> lc_Format l \<noteq> '''' \<and> lc_Output l \<noteq> '''' \<and>
     lc_FilePath l \<noteq> '''' \<and> lc_MaxSizeMB l \<noteq> 0 \<and> lc_MaxAgeDays l \<noteq> 0 \<and> lc_MaxBackups l \<noteq> 0"

definition filled :: "Config \<Rightarrow> bool" where
  "filled c \<longleftrightarrow>
     HTTPPort (Gateway c) \<noteq> 0 \<and> filled_serial (Serial_Defaults c) \<and>
     rbc_MaxLines (Ring_Buffer c) \<noteq> 0 \<and> rbc_MaxBytes (Ring_Buffer c) \<noteq> 0 \<and>
     BasePort (SSH c) \<noteq> 0 \<and> auth_Type (Auth (SSH c)) \<noteq> '''' \<and>
     InitialInterval (Reconnect c) \<noteq> 0 \<and> MaxInterval (Reconnect c) \<noteq> 0 \<and>
     (rt_Host (ReverseTunnel c) \<noteq> '''' \<longrightarrow> filled_tunnel (ReverseTunnel c)) \<and>
     (rt_Host (AdbReverseTunnel c) \<noteq> '''' \<longrightarrow> filled_tunnel (AdbReverseTunnel c)) \<and>
     (rt_Host (SerialSSHTunnel c) \<noteq> '''' \<longrightarrow> filled_conn (SerialSSHTunnel c)) \<and>
     (\<forall>t \<in> set (ReverseTunnels c). rt_Host t \<noteq> '''' \<longrightarrow> filled_entry t) \<and>
     filled_logging (Logging c) \<and>
     fr_OutputDir (FileRecording c) \<noteq> '''' \<and> fr_MaxSizeMB (FileRecording c) \<noteq> 0 \<and>
     fr_TrimSizeMB (FileRecording c) \<noteq> 0"

lemmas default_defs =
  default_serial_def default_ring_def default_ssh_def default_reconnect_def default_reverse_def
  default_adb_def default_serial_ssh_def default_logging_def default_recording_def

lemmas filled_defs =
  filled_conn_def filled_tunnel_def filled_entry_def filled_serial_def filled_logging_def

lemma default_to_zero [simp]: "default_to z d x = z \<longleftrightarrow> x = z \<and> d = z"
  by (simp add: default_to_def)

lemma default_to_id [simp]: "default_to z d x = x \<longleftrightarrow> x \<noteq> z \<or> d = z"
  by (auto simp: default_to_def)

lemma default_to_keep: "x \<noteq> z \<Longrightarrow> default_to z d x = x"
  by (simp add: default_to_def)

lemma time_units_nonzero [simp]: "second \<noteq> 0" "millisecond \<noteq> 0"
  by (simp_all add: second_def millisecond_def)

lemma filled_serial_default [simp]: "filled_serial (default_serial s)"
  by (simp add: filled_serial_def default_serial_def)

lemma filled_logging_default [simp]: "filled_logging (default_logging l)"
  by (simp add: filled_logging_def default_logging_def)

lemma filled_reverse_default:
  "http \<noteq> 0 \<Longrightarrow> rt_Host (default_reverse http t) \<noteq> '''' \<Longrightarrow> filled_tunnel (default_reverse http t)"
  by (auto simp: default_reverse_def filled_tunnel_def filled_conn_def split: if_splits)

lemma filled_adb_default:
  "rt_Host (default_adb t) \<noteq> '''' \<Longrightarrow> filled_tunnel (default_adb t)"
  by (auto simp: default_adb_def filled_tunnel_def filled_conn_def split: if_splits)

lemma filled_serial_ssh_default:
  "rt_Host (default_serial_ssh t) \<noteq> '''' \<Longrightarrow> filled_conn (default_serial_ssh t)"
  by (auto simp: default_serial_ssh_def filled_conn_def split: if_splits)

lemma filled_entry_default:
  "rt_Host (default_entry t) \<noteq> '''' \<Longrightarrow> filled_entry (default_entry t)"
  by (auto simp: default_entry_def Let_def filled_entry_def filled_conn_def split: if_splits)

lemma filled_applyDefaults: "filled (applyDefaults c)"
  unfolding filled_def
  using filled_reverse_default [of "default_to 0 8080 (HTTPPort (Gateway c))" "ReverseTunnel c"]
    filled_adb_default filled_serial_ssh_default filled_entry_default
  by (auto simp: applyDefaults_def Let_def default_ring_def default_ssh_def default_reconnect_def
      default_recording_def)

text \<open>A filled section is left exactly as it is.\<close>

lemma default_serial_id: "filled_serial s \<Longrightarrow> default_serial s = s"
  by (cases s) (simp add: filled_serial_def default_serial_def default_to_keep)

lemma default_logging_id: "filled_logging l \<Longrightarrow> default_logging l = l"
  by (cases l) (simp add: filled_logging_def default_logging_def default_to_keep)

lemma default_reverse_id: "(rt_Host t \<noteq> '''' \<Longrightarrow> filled_tunnel t) \<Longrightarrow> default_reverse http t = t"
  by (cases t) (simp add: filled_tunnel_def filled_conn_def default_reverse_def default_to_keep)

lemma default_adb_id: "(rt_Host t \<noteq> '''' \<Longrightarrow> filled_tunnel t) \<Longrightarrow> default_adb t = t"
  by (cases t) (simp add: filled_tunnel_def filled_conn_def default_adb_def default_to_keep)

lemma default_serial_ssh_id: "(rt_Host t \<noteq> '''' \<Longrightarrow> filled_conn t) \<Longrightarrow> default_serial_ssh t = t"
  by (cases t) (simp add: filled_conn_def default_serial_ssh_def default_to_keep)

lemma default_entry_id: "(rt_Host t \<noteq> '''' \<Longrightarrow> filled_entry t) \<Longrightarrow> default_entry t = t"
  by (cases t) (auto simp: filled_entry_def filled_conn_def default_entry_def default_to_keep Let_def)

lemma applyDefaults_id:
  assumes "filled c"
  shows "applyDefaults c = c"
proof -
  have "map default_entry (ReverseTunnels c) = ReverseTunnels c"
    using assms by (intro map_idI default_entry_id) (auto simp: filled_def)
  then show ?thesis
    using assms
    by (cases c)
      (auto simp: filled_def applyDefaults_def Let_def default_serial_id default_logging_id
        default_reverse_id default_adb_id default_serial_ssh_id default_ring_def default_ssh_def
        default_reconnect_def default_recording_def default_to_keep)
qed

text \<open>
  What the user set is never overwritten: \<open>kept z x y\<close> says that a field that was not the zero
  value \<open>z\<close> still has its old value.
\<close>

definition kept :: "'a \<Rightarrow> 'a \<Rightarrow> 'a \<Rightarrow> bool" where
  "kept z x y \<longleftrightarrow> x = z \<or> y = x"

definition tunnel_kept :: "ReverseTunnelConfig \<Rightarrow> ReverseTunnelConfig \<Rightarrow> bool" where
  "tunnel_kept t u \<longleftrightarrow>
     rt_Name u = rt_Name t \<and> rt_Kind u = rt_Kind t \<and> rt_Host u = rt_Host t \<and>
     kept 0 (rt_Port t) (rt_Port u) \<and> kept '''' (rt_User t) (rt_User u) \<and>
     rt_Password u = rt_Password t \<and> rt_PrivateKeyFile u = rt_PrivateKeyFile t \<and>
     kept 0 (rt_RemotePort t) (rt_RemotePort u) \<and>
     kept '''' (rt_TargetHost t) (rt_TargetHost u) \<and>
     kept 0 (rt_LocalPort t) (rt_LocalPort u) \<and>
     kept '''' (rt_BindAddress t) (rt_BindAddress u) \<and> kept '''' (rt_Mode t) (rt_Mode u) \<and>
     rt_TargetUser u = rt_TargetUser t \<and> rt_TargetPassword u = rt_TargetPassword t \<and>
     rt_TargetPrivateKey u = rt_TargetPrivateKey t \<and>
     (rt_Host t = '''' \<longrightarrow> u = t)"

definition serial_kept :: "SerialDefaults \<Rightarrow> SerialDefaults \<Rightarrow> bool" where
  "serial_kept s s' \<longleftrightarrow>
     kept 0 (sd_Baudrate s) (sd_Baudrate s') \<and> kept 0 (sd_Timeout s) (sd_Timeout s') \<and>
     kept 0 (sd_ByteSize s) (sd_ByteSize s') \<and> kept '''' (sd_Parity s) (sd_Parity s') \<and>
     kept 0 (sd_StopBits s) (sd_StopBits s') \<and>
     kept 0 (sd_WriteTimeout s) (sd_WriteTimeout s') \<and>
     kept 0 (sd_ExecSilenceTimeout s) (sd_ExecSilenceTimeout s') \<and>
     kept 0 (sd_ExecMaxDuration s) (sd_ExecMaxDuration s')"

definition logging_kept :: "LoggingConfig \<Rightarrow> LoggingConfig \<Rightarrow> bool" where
  "logging_kept l l' \<longleftrightarrow>
     kept '''' (lc_Level l) (lc_Level l') \<and> kept '''' (lc_Format l) (lc_Format l') \<and>
     kept '''' (lc_Output l) (lc_Output l') \<and> kept '''' (lc_FilePath l) (lc_FilePath l') \<and>
     kept 0 (lc_MaxSizeMB l) (lc_MaxSizeMB l') \<and> kept 0 (lc_MaxAgeDays l) (lc_MaxAgeDays l') \<and>
     kept 0 (lc_MaxBackups l) (lc_MaxBackups l') \<and> lc_Compress l' = lc_Compress l"

definition user_values_kept :: "Config \<Rightarrow> Config \<Rightarrow> bool" where
  "user_values_kept c c' \<longleftrightarrow>
     kept 0 (HTTPPort (Gateway c)) (HTTPPort (Gateway c')) \<and>
     serial_kept (Serial_Defaults c) (Serial_Defaults c') \<and>
     kept 0 (rbc_MaxLines (Ring_Buffer c)) (rbc_MaxLines (Ring_Buffer c')) \<and>
     kept 0 (rbc_MaxBytes (Ring_Buffer c)) (rbc_MaxBytes (Ring_Buffer c')) \<and>
     kept 0 (BasePort (SSH c)) (BasePort (SSH c')) \<and>
     kept '''' (auth_Type (Auth (SSH c))) (auth_Type (Auth (SSH c'))) \<and>
     auth_Password (Auth (SSH c')) = auth_Password (Auth (SSH c)) \<and>
     auth_PublicKeys (Auth (SSH c')) = auth_PublicKeys (Auth (SSH c)) \<and>
     kept 0 (InitialInterval (Reconnect c)) (InitialInterval (Reconnect c')) \<and>
     kept 0 (MaxInterval (Reconnect c)) (MaxInterval (Reconnect c')) \<and>
     DiscardInputOnDisconnect (Reconnect c') = DiscardInputOnDisconnect (Reconnect c) \<and>
     tunnel_kept (ReverseTunnel c) (ReverseTunnel c') \<and>
     tunnel_kept (AdbReverseTunnel c) (AdbReverseTunnel c') \<and>
     tunnel_kept (SerialSSHTunnel c) (SerialSSHTunnel c') \<and>
     list_all2 tunnel_kept (ReverseTunnels c) (ReverseTunnels c') \<and>
     logging_kept (Logging c) (Logging c') \<and>
     kept '''' (fr_OutputDir (FileRecording c)) (fr_OutputDir (FileRecording c')) \<and>
     kept 0 (fr_MaxSizeMB (FileRecording c)) (fr_MaxSizeMB (FileRecording c')) \<and>
     kept 0 (fr_TrimSizeMB (FileRecording c)) (fr_TrimSizeMB (FileRecording c')) \<and>
     Ports c' = Ports c"

lemma kept_default_to [simp]: "kept z x (default_to z d x)"
  by (simp add: kept_def default_to_def)

lemma kept_refl [simp]: "kept z x x"
  by (simp add: kept_def)

lemma serial_kept_default: "serial_kept s (default_serial s)"
  by (simp add: serial_kept_def default_serial_def)

lemma logging_kept_default: "logging_kept l (default_logging l)"
  by (simp add: logging_kept_def default_logging_def)

lemma tunnel_kept_reverse: "tunnel_kept t (default_reverse http t)"
  by (simp add: tunnel_kept_def default_reverse_def)

lemma tunnel_kept_adb: "tunnel_kept t (default_adb t)"
  by (simp add: tunnel_kept_def default_adb_def)

lemma tunnel_kept_serial_ssh: "tunnel_kept t (default_serial_ssh t)"
  by (simp add: tunnel_kept_def default_serial_ssh_def)

lemma tunnel_kept_entry: "tunnel_kept t (default_entry t)"
  by (simp add: tunnel_kept_def default_entry_def Let_def kept_def default_to_def)

lemmas tunnels_kept = tunnel_kept_reverse tunnel_kept_adb tunnel_kept_serial_ssh

section \<open>Properties\<close>

text \<open>C30. \<open>applyDefaults\<close> leaves no defaulted field at its zero value, changes nothing when run
  again (the PUT handler and \<open>Load\<close> can both run it), and leaves exactly the already complete
  configurations unchanged.\<close>

theorem applyDefaults_complete_idempotent:
  "filled (applyDefaults c) \<and> applyDefaults (applyDefaults c) = applyDefaults c \<and>
   (applyDefaults c = c \<longleftrightarrow> filled c)"
  by (metis applyDefaults_id filled_applyDefaults)

text \<open>C31. \<open>applyDefaults\<close> never overwrites a value the user set: every field that was not zero keeps
  its value, the fields without a default are untouched, and a tunnel without a host is left
  as it is.\<close>

theorem applyDefaults_keeps_user_values:
  "user_values_kept c (applyDefaults c)"
proof -
  have "list_all2 tunnel_kept (ReverseTunnels c) (map default_entry (ReverseTunnels c))"
    by (simp add: list_all2_conv_all_nth tunnel_kept_entry)
  then show ?thesis
    by (simp add: user_values_kept_def applyDefaults_def Let_def serial_kept_default
        logging_kept_default tunnels_kept default_ring_def default_ssh_def default_reconnect_def
        default_recording_def)
qed

end
