(* ===== verification/Channels.thy ===== *)
theory Channels
  imports Prelude "HOL-Library.Sublist"
begin

text \<open>
  Go's buffered channels as the gateway uses them: a send or a receive under \<open>select\<close> with a
  \<open>default\<close> branch (never blocks), a plain send or receive (blocks: \<open>None\<close>), and \<open>close\<close>. A send on a closed
  channel and a second \<open>close\<close> panic. What the components rely on is stated once as the locale
  \<open>fifo\<close>, with its client lemmas, and interpreted on this model.
\<close>

section \<open>Channels\<close>

record 'a chan =
  buf :: "'a list"
  cap :: nat
  closed :: bool

definition make_chan :: "nat \<Rightarrow> 'a chan" where
  "make_chan n = \<lparr>buf = [], cap = n, closed = False\<rparr>"

definition has_room :: "'a chan \<Rightarrow> bool" where
  "has_room c \<longleftrightarrow> length (buf c) < cap c"

text \<open>\<open>select { case c <- x: default: }\<close>: the channel afterwards and whether \<open>x\<close> was taken.\<close>

definition try_send :: "'a \<Rightarrow> 'a chan \<Rightarrow> ('a chan \<times> bool) outcome" where
  "try_send x c =
     (if closed c then Panic ''send on closed channel''
      else if has_room c then Ret (c\<lparr>buf := buf c @ [x]\<rparr>, True)
      else Ret (c, False))"

text \<open>A plain send: \<open>None\<close> while it blocks.\<close>

definition send :: "'a \<Rightarrow> 'a chan \<Rightarrow> 'a chan outcome option" where
  "send x c =
     (if closed c then Some (Panic ''send on closed channel'')
      else if has_room c then Some (Ret (c\<lparr>buf := buf c @ [x]\<rparr>))
      else None)"

text \<open>
  A receive that finds a value. When it finds none, the channel is drained: a receive then
  blocks while the channel is open and ends a \<open>range\<close> loop once it is closed.
\<close>

definition recv :: "'a chan \<Rightarrow> ('a \<times> 'a chan) option" where
  "recv c = (case buf c of [] \<Rightarrow> None | x # xs \<Rightarrow> Some (x, c\<lparr>buf := xs\<rparr>))"

definition close_chan :: "'a chan \<Rightarrow> 'a chan outcome" where
  "close_chan c = (if closed c then Panic ''close of closed channel'' else Ret (c\<lparr>closed := True\<rparr>))"

section \<open>The interface of a bounded queue\<close>

datatype 'a chan_op = Snd 'a | Rcv

text \<open>
  \<open>put\<close> is a send that may drop, \<open>get\<close> a receive. The laws: \<open>put\<close> appends exactly when there is room,
  \<open>get\<close> takes the oldest item.
\<close>

locale fifo =
  fixes put :: "'a \<Rightarrow> 'c \<Rightarrow> 'c \<times> bool"
    and get :: "'c \<Rightarrow> ('a \<times> 'c) option"
    and items :: "'c \<Rightarrow> 'a list"
    and room :: "'c \<Rightarrow> nat"
  assumes put_items: "put x c = (c', b) \<Longrightarrow>
      items c' = (if b then items c @ [x] else items c) \<and> room c' = room c \<and>
      (b \<longleftrightarrow> length (items c) < room c)"
    and get_some: "get c = Some (x, c') \<Longrightarrow> items c = x # items c' \<and> room c' = room c"
    and get_none: "get c = None \<longleftrightarrow> items c = []"
begin

text \<open>A run of sends and receives: the queue, what was accepted, what was received.\<close>

fun run :: "'a chan_op list \<Rightarrow> 'c \<times> 'a list \<times> 'a list \<Rightarrow> 'c \<times> 'a list \<times> 'a list" where
  "run [] s = s"
| "run (Snd x # ops) (c, acc, rec) =
     (let (c', b) = put x c in run ops (c', if b then acc @ [x] else acc, rec))"
| "run (Rcv # ops) (c, acc, rec) =
     (case get c of None \<Rightarrow> run ops (c, acc, rec) | Some (x, c') \<Rightarrow> run ops (c', acc, rec @ [x]))"

lemma put_bound: "length (items c) \<le> room c \<Longrightarrow> put x c = (c', b) \<Longrightarrow> length (items c') \<le> room c'"
  using put_items [of x c c' b] by (auto split: if_splits)

lemma get_bound: "length (items c) \<le> room c \<Longrightarrow> get c = Some (x, c') \<Longrightarrow> length (items c') \<le> room c'"
  using get_some [of c x c'] by simp

text \<open>First in, first out, nothing lost or doubled once accepted, and never over capacity.\<close>

lemma run_fifo:
  assumes "run ops (c, acc, rec) = (c', acc', rec')" and "acc = rec @ items c"
    and "length (items c) \<le> room c"
  shows "acc' = rec' @ items c' \<and> length (items c') \<le> room c' \<and> room c' = room c"
  using assms
proof (induction ops arbitrary: c acc rec)
  case Nil
  then show ?case by auto
next
  case (Cons op ops)
  show ?case
  proof (cases op)
    case (Snd x)
    obtain d b where d: "put x c = (d, b)" by fastforce
    have "run ops (d, if b then acc @ [x] else acc, rec) = (c', acc', rec')"
      using Cons.prems(1) by (simp add: Snd d)
    moreover have "(if b then acc @ [x] else acc) = rec @ items d"
      using Cons.prems(2) put_items [OF d] by simp
    moreover have "length (items d) \<le> room d" "room d = room c"
      using put_bound [OF Cons.prems(3) d] put_items [OF d] by auto
    ultimately show ?thesis using Cons.IH by metis
  next
    case Rcv
    show ?thesis
    proof (cases "get c")
      case None
      then have "run ops (c, acc, rec) = (c', acc', rec')" using Cons.prems(1) by (simp add: Rcv)
      then show ?thesis using Cons.IH Cons.prems by blast
    next
      case (Some p)
      obtain x d where p: "p = (x, d)" by fastforce
      have "run ops (d, acc, rec @ [x]) = (c', acc', rec')"
        using Cons.prems(1) by (simp add: Rcv Some p)
      moreover have "acc = (rec @ [x]) @ items d" "room d = room c"
        using Cons.prems(2) get_some [of c x d] Some p by auto
      moreover have "length (items d) \<le> room d"
        using get_bound Cons.prems(3) Some p by blast
      ultimately show ?thesis using Cons.IH by metis
    qed
  qed
qed

end

section \<open>The code's channels satisfy it\<close>

text \<open>A send that may drop, on a channel known to be open.\<close>

definition offer :: "'a \<Rightarrow> 'a chan \<Rightarrow> 'a chan \<times> bool" where
  "offer x c = (if has_room c then (c\<lparr>buf := buf c @ [x]\<rparr>, True) else (c, False))"

lemma try_send_open: "\<not> closed c \<Longrightarrow> try_send x c = Ret (offer x c)"
  by (simp add: try_send_def offer_def)

interpretation ch: fifo offer recv buf cap
  by unfold_locales
    (auto simp: offer_def has_room_def recv_def split: if_splits list.splits)

lemma make_chan_simps [simp]:
  "buf (make_chan n) = []" "cap (make_chan n) = n" "\<not> closed (make_chan n)"
  by (simp_all add: make_chan_def)

lemma offer_frame [simp, chan_laws]: "closed (fst (offer x c)) = closed c" "cap (fst (offer x c)) = cap c"
  by (simp_all add: offer_def)

lemma offer_buf [chan_laws]: "buf (fst (offer x c)) = (if has_room c then buf c @ [x] else buf c)"
  by (simp add: offer_def)

lemma recv_frame: "recv c = Some (x, d) \<Longrightarrow> closed d = closed c \<and> cap d = cap c \<and> buf c = x # buf d"
  by (auto simp: recv_def split: list.splits)

lemma offer_bound: "length (buf c) \<le> cap c \<Longrightarrow> length (buf (fst (offer x c))) \<le> cap c"
  by (auto simp: offer_def has_room_def)

end
