(* ===== verification/Recorder.thy ===== *)
theory Recorder
  imports Channels
begin

text \<open>
  \<open>internal/recorder/recorder.go\<close>: the file recorder. The file on disk is a byte list next to
  the recorder's state; \<open>file_open\<close> says that \<open>r.file\<close> is not nil. Every file operation can fail: a
  \<open>trim_io\<close> or \<open>write_io\<close> value says which one fails first, if any. The goroutine \<open>writeLoop\<close> and its
  callers are the step relation \<open>recorder_step\<close>. The \<open>select\<close> of the loop may take data although
  \<open>Stop\<close> was called, as in Go. Log output is not modelled.
\<close>

section \<open>State\<close>

record FileRecorder =
  rec_device :: string
  rec_dir :: string
  maxSize :: int
  trimSize :: int
  writeCh :: "bytes chan"
  stopped :: bool
  file_open :: bool
  fileSize :: int
  disk :: bytes

text \<open>What creating the directory and opening the file give: errors, or the existing contents.
  \<open>joined\<close> is \<open>filepath.Join\<close>, whose separator depends on the operating system; the path only occurs in
  messages.\<close>

record open_env =
  mkdir_err :: "error option"
  open_err :: "error option"
  stat_err :: "error option"
  existing :: bytes
  joined :: "string \<Rightarrow> string \<Rightarrow> string"

definition megabytes :: "int \<Rightarrow> int" where
  "megabytes n = wrap64 (wrap64 (n * 1024) * 1024)"

definition NewFileRecorder ::
  "string \<Rightarrow> string \<Rightarrow> int \<Rightarrow> int \<Rightarrow> open_env \<Rightarrow> error + FileRecorder" where
  "NewFileRecorder device dir maxSizeMB trimSizeMB env =
     (case mkdir_err env of
        Some e \<Rightarrow> Inl (''create output dir '' @ dir @ '': '' @ e)
      | None \<Rightarrow>
     (case open_err env of
        Some e \<Rightarrow> Inl (''open file '' @ joined env dir device @ '': '' @ e)
      | None \<Rightarrow>
     (case stat_err env of
        Some e \<Rightarrow> Inl (''stat file '' @ joined env dir device @ '': '' @ e)
      | None \<Rightarrow>
        Inr \<lparr>rec_device = device, rec_dir = dir,
             maxSize = megabytes maxSizeMB, trimSize = megabytes trimSizeMB,
             writeCh = make_chan 256, stopped = False,
             file_open = True, fileSize = int (length (existing env)), disk = existing env\<rparr>)))"

section \<open>Write and Stop\<close>

definition Write :: "bytes \<Rightarrow> FileRecorder \<Rightarrow> FileRecorder" where
  "Write data r =
     (if data = [] then r else r\<lparr>writeCh := fst (offer data (writeCh r))\<rparr>)"

definition Stop :: "FileRecorder \<Rightarrow> FileRecorder" where
  "Stop r = (if stopped r then r else r\<lparr>stopped := True\<rparr>)"

section \<open>trim and processWrite\<close>

text \<open>The first operation of \<open>trim\<close> that fails; \<open>WriteFails k\<close> is a write that stops after \<open>k\<close> bytes.\<close>

datatype trim_io =
    TrimOk | CloseFails | OpenFails | SeekFails | ReadFails | CreateFails
  | WriteFails nat | ReopenFails

datatype write_io = WriteOk | WriteErr nat

definition trim :: "trim_io \<Rightarrow> FileRecorder \<Rightarrow> FileRecorder" where
  "trim io r =
     (if \<not> file_open r then r
      else let remaining = drop (nat (trimSize r)) (disk r) in
        if io = CloseFails then r\<lparr>file_open := False\<rparr>
        else if io = OpenFails then r\<lparr>file_open := False\<rparr>
        else if io = SeekFails \<or> trimSize r < 0 then r\<lparr>file_open := False\<rparr>
        else (case io of
            ReadFails \<Rightarrow> r\<lparr>file_open := False\<rparr>
          | CreateFails \<Rightarrow> r\<lparr>file_open := False\<rparr>
          | WriteFails k \<Rightarrow> r\<lparr>file_open := False, disk := take k remaining\<rparr>
          | ReopenFails \<Rightarrow>
              r\<lparr>file_open := False, disk := remaining, fileSize := int (length remaining)\<rparr>
          | _ \<Rightarrow> r\<lparr>disk := remaining, fileSize := int (length remaining)\<rparr>))"

record proc_io =
  pre_trim :: trim_io
  write_result :: write_io
  post_trim :: trim_io

definition io_ok :: proc_io where
  "io_ok = \<lparr>pre_trim = TrimOk, write_result = WriteOk, post_trim = TrimOk\<rparr>"

text \<open>\<open>r.file.Write(data)\<close> on a file opened for appending.\<close>

definition file_write :: "write_io \<Rightarrow> bytes \<Rightarrow> FileRecorder \<Rightarrow> FileRecorder" where
  "file_write io data r =
     (case io of
        WriteErr k \<Rightarrow> r\<lparr>disk := disk r @ take k data\<rparr>
      | WriteOk \<Rightarrow> r\<lparr>disk := disk r @ data, fileSize := fileSize r + int (length data)\<rparr>)"

definition processWrite :: "proc_io \<Rightarrow> bytes \<Rightarrow> FileRecorder \<Rightarrow> FileRecorder" where
  "processWrite io data r =
     (let r1 = (if fileSize r \<ge> maxSize r then trim (pre_trim io) r else r);
          r2 = (if file_open r1 then file_write (write_result io) data r1 else r1)
      in if fileSize r2 \<ge> maxSize r2 \<and> file_open r2 then trim (post_trim io) r2 else r2)"

fun process_all :: "bytes list \<Rightarrow> FileRecorder \<Rightarrow> FileRecorder" where
  "process_all [] r = r"
| "process_all (d # ds) r = process_all ds (processWrite io_ok d r)"

section \<open>The goroutine and its callers\<close>

datatype loop_phase = Selecting | Draining | Exited

text \<open>
  The recorder with the position of \<open>writeLoop\<close> and two history variables: the chunks \<open>Write\<close> took
  and the chunks \<open>processWrite\<close> was called with; \<open>healthy\<close> says that no file operation failed.
\<close>

record RecorderRun =
  recorder :: FileRecorder
  phase :: loop_phase
  accepted :: "bytes list"
  processed :: "bytes list"
  healthy :: bool

definition start_run :: "FileRecorder \<Rightarrow> RecorderRun" where
  "start_run r = \<lparr>recorder = r, phase = Selecting, accepted = [], processed = [], healthy = True\<rparr>"

definition takes :: "bytes \<Rightarrow> FileRecorder \<Rightarrow> bool" where
  "takes data r \<longleftrightarrow> data \<noteq> [] \<and> has_room (writeCh r)"

definition process_next :: "proc_io \<Rightarrow> bytes \<Rightarrow> bytes chan \<Rightarrow> RecorderRun \<Rightarrow> RecorderRun" where
  "process_next io data ch s = s
     \<lparr>recorder := processWrite io data (recorder s\<lparr>writeCh := ch\<rparr>),
      processed := processed s @ [data],
      healthy := healthy s \<and> io = io_ok\<rparr>"

inductive recorder_step :: "RecorderRun \<Rightarrow> RecorderRun \<Rightarrow> bool" where
  api_write: "recorder_step s (s\<lparr>recorder := Write data (recorder s),
     accepted := accepted s @ (if takes data (recorder s) then [data] else [])\<rparr>)"
| api_stop: "recorder_step s (s\<lparr>recorder := Stop (recorder s)\<rparr>)"
| loop_stop: "phase s = Selecting \<Longrightarrow> stopped (recorder s) \<Longrightarrow> recorder_step s (s\<lparr>phase := Draining\<rparr>)"
| loop_data: "phase s = Selecting \<Longrightarrow> recv (writeCh (recorder s)) = Some (data, ch) \<Longrightarrow>
     recorder_step s (process_next io data ch s)"
| drain_data: "phase s = Draining \<Longrightarrow> recv (writeCh (recorder s)) = Some (data, ch) \<Longrightarrow>
     recorder_step s (process_next io data ch s)"
| drain_end: "phase s = Draining \<Longrightarrow> recv (writeCh (recorder s)) = None \<Longrightarrow>
     recorder_step s (s\<lparr>recorder := recorder s\<lparr>file_open := False\<rparr>, phase := Exited\<rparr>)"

inductive recorder_reach :: "RecorderRun \<Rightarrow> RecorderRun \<Rightarrow> bool" for s0 where
  here: "recorder_reach s0 s0"
| onward: "recorder_reach s0 s \<Longrightarrow> recorder_step s t \<Longrightarrow> recorder_reach s0 t"

inductive_cases recorder_stepE: "recorder_step s t"

section \<open>The interface the serial session writes to\<close>

text \<open>
  The session's field \<open>recorder interface{ Write([]byte) }\<close>: what it may assume of any
  recorder is that a write returns at once and either queues all of the data behind what is
  already queued or drops it.
\<close>

locale byte_sink =
  fixes put_bytes :: "bytes \<Rightarrow> 'r \<Rightarrow> 'r"
    and queued :: "'r \<Rightarrow> bytes list"
  assumes put_queued: "queued (put_bytes d r) = queued r @ [d] \<or> queued (put_bytes d r) = queued r"
begin

fun put_all :: "bytes list \<Rightarrow> 'r \<Rightarrow> 'r" where
  "put_all [] r = r"
| "put_all (d # ds) r = put_all ds (put_bytes d r)"

lemma put_all_subseq: "\<exists>es. queued (put_all ds r) = queued r @ es \<and> subseq es ds"
proof (induction ds arbitrary: r)
  case Nil
  then show ?case by simp
next
  case (Cons d ds)
  obtain es where es: "queued (put_all ds (put_bytes d r)) = queued (put_bytes d r) @ es" "subseq es ds"
    using Cons by blast
  from put_queued [of d r] show ?case
  proof
    assume "queued (put_bytes d r) = queued r @ [d]"
    with es show ?thesis by (intro exI [of _ "d # es"]) simp
  next
    assume "queued (put_bytes d r) = queued r"
    with es show ?thesis by (intro exI [of _ es]) (simp add: list_emb_Cons)
  qed
qed

end

interpretation rec_sink: byte_sink Write "\<lambda>r. buf (writeCh r)"
  by unfold_locales (auto simp: Write_def chan_laws)

section \<open>Lemmas: a recorder without file errors\<close>

definition recording :: "FileRecorder \<Rightarrow> bool" where
  "recording r \<longleftrightarrow> file_open r \<and> fileSize r = int (length (disk r)) \<and> 0 < maxSize r \<and> 0 \<le> trimSize r"

lemma trim_frame [simp]:
  "maxSize (trim io r) = maxSize r" "trimSize (trim io r) = trimSize r"
  "writeCh (trim io r) = writeCh r" "stopped (trim io r) = stopped r"
  "rec_device (trim io r) = rec_device r" "rec_dir (trim io r) = rec_dir r"
  by (auto simp: trim_def Let_def split: trim_io.split)

lemma file_write_frame [simp]:
  "maxSize (file_write io d r) = maxSize r" "trimSize (file_write io d r) = trimSize r"
  "writeCh (file_write io d r) = writeCh r" "stopped (file_write io d r) = stopped r"
  "file_open (file_write io d r) = file_open r"
  by (auto simp: file_write_def split: write_io.split)

lemma processWrite_frame [simp]:
  "maxSize (processWrite io d r) = maxSize r" "trimSize (processWrite io d r) = trimSize r"
  "writeCh (processWrite io d r) = writeCh r" "stopped (processWrite io d r) = stopped r"
  by (auto simp: processWrite_def Let_def)

lemma trim_TrimOk: "file_open r \<Longrightarrow> 0 \<le> trimSize r \<Longrightarrow>
    trim TrimOk r = r\<lparr>disk := drop (nat (trimSize r)) (disk r),
      fileSize := int (length (drop (nat (trimSize r)) (disk r)))\<rparr>"
  by (simp add: trim_def Let_def)

text \<open>The contents after one write: cut at the front before, after, both or not at all.\<close>

definition cut_if :: "bool \<Rightarrow> int \<Rightarrow> bytes \<Rightarrow> bytes" where
  "cut_if b n xs = (if b then drop (nat n) xs else xs)"

lemma processWrite_disk:
  assumes "recording r"
  shows "recording (processWrite io_ok d r)"
    and "disk (processWrite io_ok d r) =
      (let d1 = cut_if (int (length (disk r)) \<ge> maxSize r) (trimSize r) (disk r) @ d
       in cut_if (int (length d1) \<ge> maxSize r) (trimSize r) d1)"
  using assms
  by (auto simp: recording_def processWrite_def io_ok_def Let_def trim_TrimOk file_write_def cut_if_def)

lemma cut_if_length: "0 \<le> n \<Longrightarrow> int (length (cut_if b n xs)) = (if b then max 0 (int (length xs) - n) else int (length xs))"
  by (auto simp: cut_if_def)

lemma cut_if_suffix: "suffix xs ys \<Longrightarrow> suffix (cut_if b n xs) ys"
  by (simp add: cut_if_def suffix_order.trans [OF suffix_drop])

text \<open>
  \<open>newest_of r all\<close>: the file is a suffix of all bytes recorded, and no shorter than what the
  recorder promises to keep.
\<close>

definition newest_of :: "FileRecorder \<Rightarrow> bytes \<Rightarrow> bool" where
  "newest_of r whole \<longleftrightarrow> suffix (disk r) whole \<and>
     min (int (length whole)) (maxSize r - trimSize r) \<le> int (length (disk r))"

lemma processWrite_newest:
  assumes "recording r" and "newest_of r whole"
  shows "newest_of (processWrite io_ok d r) (whole @ d)"
proof -
  let ?m = "maxSize r" and ?n = "trimSize r"
  let ?d1 = "cut_if (int (length (disk r)) \<ge> ?m) ?n (disk r)"
  let ?d2 = "cut_if (int (length (?d1 @ d)) \<ge> ?m) ?n (?d1 @ d)"
  have n: "0 \<le> ?n" using assms(1) by (simp add: recording_def)
  have "suffix ?d1 whole" using assms(2) by (simp add: newest_of_def cut_if_suffix)
  then have "suffix ?d2 (whole @ d)" by (simp add: cut_if_suffix)
  moreover have "min (int (length whole)) (?m - ?n) \<le> int (length ?d1)"
    using assms(2) n by (auto simp: newest_of_def cut_if_length)
  then have "min (int (length (whole @ d))) (?m - ?n) \<le> int (length ?d2)"
    using n by (auto simp: cut_if_length)
  ultimately show ?thesis
    using processWrite_disk [OF assms(1), of d] by (simp add: newest_of_def Let_def)
qed

lemma processWrite_below:
  assumes "recording r" and "fileSize r < maxSize r" and "int (length d) \<le> trimSize r"
  shows "fileSize (processWrite io_ok d r) < maxSize r"
  using assms processWrite_disk [OF assms(1), of d]
  by (auto simp: recording_def Let_def cut_if_length)

lemma process_all_newest:
  assumes "recording r" and "newest_of r whole"
  shows "recording (process_all ds r) \<and> newest_of (process_all ds r) (whole @ concat ds) \<and>
    maxSize (process_all ds r) = maxSize r \<and> trimSize (process_all ds r) = trimSize r"
  using assms
proof (induction ds arbitrary: r whole)
  case (Cons d ds)
  then show ?case
    using Cons.IH [OF processWrite_disk(1) [OF Cons.prems(1), of d] processWrite_newest [OF Cons.prems, of d]]
    by simp
qed simp

lemma process_all_below:
  assumes "recording r" and "fileSize r < maxSize r" and "\<forall>d \<in> set ds. int (length d) \<le> trimSize r"
  shows "fileSize (process_all ds r) < maxSize r"
  using assms
proof (induction ds arbitrary: r)
  case (Cons d ds)
  then show ?case
    using Cons.IH [OF processWrite_disk(1) [OF Cons.prems(1), of d]] processWrite_below [OF Cons.prems(1), of d]
    by simp
qed simp

lemma megabytes_exact: "0 \<le> n \<Longrightarrow> n < 2 ^ 43 \<Longrightarrow> megabytes n = n * 1048576"
  by (simp add: megabytes_def wrap64_id in_int64_def)

lemma NewFileRecorder_recording:
  assumes "NewFileRecorder device dir mx tr env = Inr r"
    and "0 < mx" and "mx < 2 ^ 43" and "0 \<le> tr" and "tr < 2 ^ 43"
  shows "recording r \<and> newest_of r (existing env) \<and> maxSize r = mx * 1048576 \<and>
    trimSize r = tr * 1048576 \<and> disk r = existing env \<and> writeCh r = make_chan 256"
  using assms
  by (auto simp: NewFileRecorder_def recording_def newest_of_def megabytes_exact split: option.splits)

section \<open>Lemmas: file errors\<close>

lemma processWrite_closed: "\<not> file_open r \<Longrightarrow> processWrite io d r = r"
  by (simp add: processWrite_def trim_def)

lemma trim_failure_closes: "io \<noteq> TrimOk \<Longrightarrow> \<not> file_open (trim io r)"
  by (cases io) (simp_all add: trim_def Let_def)

section \<open>Lemmas: the goroutine\<close>

text \<open>Two recorders with the same file and limits, whatever their channels.\<close>

definition same_file :: "FileRecorder \<Rightarrow> FileRecorder \<Rightarrow> bool" where
  "same_file r q \<longleftrightarrow> disk r = disk q \<and> fileSize r = fileSize q \<and> maxSize r = maxSize q \<and>
     trimSize r = trimSize q \<and> file_open r = file_open q"

lemma same_file_trim: "same_file r q \<Longrightarrow> same_file (trim io r) (trim io q)"
  by (cases io) (auto simp: same_file_def trim_def Let_def)

lemma same_file_write: "same_file r q \<Longrightarrow> same_file (file_write io d r) (file_write io d q)"
  by (cases io) (auto simp: same_file_def file_write_def)

lemma same_file_simps:
  "same_file r q \<Longrightarrow> file_open r = file_open q" "same_file r q \<Longrightarrow> fileSize r = fileSize q"
  "same_file r q \<Longrightarrow> maxSize r = maxSize q"
  by (simp_all add: same_file_def)

lemma same_file_processWrite:
  assumes "same_file r q"
  shows "same_file (processWrite io d r) (processWrite io d q)"
proof -
  define r1 where "r1 = (if fileSize r \<ge> maxSize r then trim (pre_trim io) r else r)"
  define q1 where "q1 = (if fileSize q \<ge> maxSize q then trim (pre_trim io) q else q)"
  have 1: "same_file r1 q1"
    using assms same_file_trim same_file_simps [OF assms] by (simp add: r1_def q1_def)
  define r2 where "r2 = (if file_open r1 then file_write (write_result io) d r1 else r1)"
  define q2 where "q2 = (if file_open q1 then file_write (write_result io) d q1 else q1)"
  have 2: "same_file r2 q2"
    using 1 same_file_write same_file_simps [OF 1] by (simp add: r2_def q2_def)
  have "processWrite io d r = (if fileSize r2 \<ge> maxSize r2 \<and> file_open r2 then trim (post_trim io) r2 else r2)"
    unfolding processWrite_def r1_def r2_def Let_def by (rule refl)
  moreover have "processWrite io d q = (if fileSize q2 \<ge> maxSize q2 \<and> file_open q2 then trim (post_trim io) q2 else q2)"
    unfolding processWrite_def q1_def q2_def Let_def by (rule refl)
  ultimately show ?thesis
    using 2 same_file_trim [OF 2] same_file_simps [OF 2] by simp
qed

lemma process_all_snoc: "process_all (ds @ [d]) r = processWrite io_ok d (process_all ds r)"
  by (induction ds arbitrary: r) auto

text \<open>The invariant of the run: the queue accounts for everything taken, and a healthy recorder
  has done to the file exactly what processing the chunks in order does.\<close>

definition run_inv :: "FileRecorder \<Rightarrow> RecorderRun \<Rightarrow> bool" where
  "run_inv r0 s \<longleftrightarrow>
     accepted s = processed s @ buf (writeCh (recorder s)) \<and>
     length (buf (writeCh (recorder s))) \<le> cap (writeCh (recorder s)) \<and>
     cap (writeCh (recorder s)) = cap (writeCh r0) \<and>
     (phase s = Exited \<longrightarrow> \<not> file_open (recorder s)) \<and>
     (phase s \<noteq> Selecting \<longrightarrow> stopped (recorder s)) \<and>
     (healthy s \<longrightarrow> disk (recorder s) = disk (process_all (processed s) r0) \<and>
        (phase s \<noteq> Exited \<longrightarrow> same_file (recorder s) (process_all (processed s) r0)))"

lemma run_inv_start: "writeCh r = make_chan n \<Longrightarrow> run_inv r (start_run r)"
  by (simp add: run_inv_def start_run_def same_file_def)

lemma same_file_chan: "same_file (r\<lparr>writeCh := c\<rparr>) q = same_file r q"
  by (simp add: same_file_def)

lemma run_inv_process:
  assumes "run_inv r0 s" and "phase s \<noteq> Exited" and "recv (writeCh (recorder s)) = Some (d, ch)"
  shows "run_inv r0 (process_next io d ch s)"
proof -
  have "same_file (processWrite io_ok d (recorder s\<lparr>writeCh := ch\<rparr>))
      (processWrite io_ok d (process_all (processed s) r0))" if "healthy s"
    using assms that by (intro same_file_processWrite) (simp add: run_inv_def same_file_chan)
  then show ?thesis
    using assms recv_frame [OF assms(3)]
    by (auto simp: run_inv_def process_next_def process_all_snoc) (auto simp: same_file_def)
qed

lemma run_inv_step:
  assumes "recorder_step s t" and "run_inv r0 s"
  shows "run_inv r0 t"
  using assms
proof (induction rule: recorder_step.induct)
  case (api_write s data)
  then show ?case
    by (auto simp: run_inv_def Write_def takes_def chan_laws offer_bound same_file_chan)
      (auto simp: has_room_def)
next
  case (api_stop s)
  then show ?case by (auto simp: run_inv_def Stop_def same_file_def)
next
  case (loop_stop s)
  then show ?case by (simp add: run_inv_def)
next
  case (loop_data s data ch io)
  then show ?case by (simp add: run_inv_process)
next
  case (drain_data s data ch io)
  then show ?case by (simp add: run_inv_process)
next
  case (drain_end s)
  then show ?case by (simp add: run_inv_def)
qed

lemma run_inv_reach: "recorder_reach s0 s \<Longrightarrow> run_inv r0 s0 \<Longrightarrow> run_inv r0 s"
  by (induction rule: recorder_reach.induct) (auto intro: run_inv_step)

lemma drain_completes:
  assumes "phase s = Draining"
  shows "\<exists>t. recorder_reach s t \<and> phase t = Exited \<and>
    processed t = processed s @ buf (writeCh (recorder s))"
  using assms
proof (induction "buf (writeCh (recorder s))" arbitrary: s)
  case Nil
  then have "recv (writeCh (recorder s)) = None" by (simp add: recv_def)
  then have "recorder_step s (s\<lparr>recorder := recorder s\<lparr>file_open := False\<rparr>, phase := Exited\<rparr>)"
    using Nil.prems by (intro recorder_step.drain_end)
  then have "recorder_reach s (s\<lparr>recorder := recorder s\<lparr>file_open := False\<rparr>, phase := Exited\<rparr>)"
    by (rule recorder_reach.onward [OF recorder_reach.here])
  then show ?case using Nil.hyps by (intro exI) auto
next
  case (Cons d ds)
  let ?ch = "writeCh (recorder s)\<lparr>buf := ds\<rparr>"
  let ?u = "process_next io_ok d ?ch s"
  have rc: "recv (writeCh (recorder s)) = Some (d, ?ch)"
    by (simp add: recv_def flip: Cons.hyps(2))
  then have step: "recorder_step s ?u"
    using Cons.prems by (intro recorder_step.drain_data)
  have u: "buf (writeCh (recorder ?u)) = ds" "phase ?u = Draining" "processed ?u = processed s @ [d]"
    using Cons.prems by (simp_all add: process_next_def)
  then obtain t where t: "recorder_reach ?u t" "phase t = Exited" "processed t = processed ?u @ ds"
    using Cons.hyps(1) [of ?u] by auto
  from t(1) step have "recorder_reach s t"
    by (induction rule: recorder_reach.induct) (auto intro: recorder_reach.intros)
  with t u(3) Cons.hyps(2) show ?case by (metis append.assoc append_Cons append_Nil)
qed

section \<open>Properties\<close>

text \<open>C13. What the file holds: while no file operation fails, a recorder opened on a file and fed
  chunks keeps a suffix of the old contents followed by the chunks, never fewer than the newest
  \<open>max_size - trim_size\<close> bytes of it; and if no chunk is larger than \<open>trim_size\<close> and the file
  started below the limit, its size stays below \<open>max_size\<close>.\<close>

theorem recorder_keeps_newest_bytes:
  assumes "NewFileRecorder device dir mx tr env = Inr r"
    and "0 < mx" and "mx < 2 ^ 43" and "0 \<le> tr" and "tr < 2 ^ 43"
  shows "suffix (disk (process_all ds r)) (existing env @ concat ds) \<and>
    min (int (length (existing env @ concat ds))) ((mx - tr) * 1048576)
      \<le> int (length (disk (process_all ds r))) \<and>
    fileSize (process_all ds r) = int (length (disk (process_all ds r))) \<and>
    (int (length (existing env)) < mx * 1048576 \<and> (\<forall>d \<in> set ds. int (length d) \<le> tr * 1048576) \<longrightarrow>
      int (length (disk (process_all ds r))) < mx * 1048576)"
proof -
  have r: "recording r" "newest_of r (existing env)" "maxSize r = mx * 1048576"
      "trimSize r = tr * 1048576" "disk r = existing env"
    using NewFileRecorder_recording [OF assms] by auto
  have p: "recording (process_all ds r)" "newest_of (process_all ds r) (existing env @ concat ds)"
      "maxSize (process_all ds r) = maxSize r" "trimSize (process_all ds r) = trimSize r"
    using process_all_newest [OF r(1,2), of ds] by auto
  have "fileSize (process_all ds r) < maxSize r"
    if "int (length (existing env)) < mx * 1048576" "\<forall>d \<in> set ds. int (length d) \<le> tr * 1048576"
    using that r by (intro process_all_below) (auto simp: recording_def)
  with p r show ?thesis
    by (auto simp: newest_of_def recording_def left_diff_distrib)
qed

text \<open>C20. Whatever the callers and the goroutine do, in any order: every chunk \<open>Write\<close> took is
  either processed already, in the order of the calls, or still queued; at most 256 are queued;
  the file is closed once the goroutine has left; and while no file operation failed the disk
  holds exactly what processing the chunks in order gives.\<close>

theorem recorder_accounts_for_all_data:
  assumes "NewFileRecorder device dir mx tr env = Inr r" and "recorder_reach (start_run r) s"
  shows "accepted s = processed s @ buf (writeCh (recorder s)) \<and>
    length (buf (writeCh (recorder s))) \<le> 256 \<and>
    (phase s = Exited \<longrightarrow> \<not> file_open (recorder s)) \<and>
    (healthy s \<longrightarrow> disk (recorder s) = disk (process_all (processed s) r))"
proof -
  have "writeCh r = make_chan 256"
    using assms(1) by (auto simp: NewFileRecorder_def split: option.splits)
  then have "run_inv r s" "cap (writeCh r) = 256"
    using run_inv_reach [OF assms(2)] run_inv_start [of r 256] by auto
  then show ?thesis by (simp add: run_inv_def)
qed


text \<open>After one failed trim the recorder never writes again: the handle stays nil, every later
  chunk is dropped and the file is left as the failure left it. (The design document says that
  a failed trim falls back to an empty file and recording goes on.)\<close>

theorem failed_trim_ends_recording:
  assumes "file_open r" and "io \<noteq> TrimOk"
  shows "fold (\<lambda>(i, d). processWrite i d) later (trim io r) = trim io r \<and> \<not> file_open (trim io r)"
proof -
  have "\<not> file_open (trim io r)" by (rule trim_failure_closes [OF assms(2)])
  then have "fold (\<lambda>(i, d). processWrite i d) later (trim io r) = trim io r"
    by (induction later) (auto simp: processWrite_closed)
  then show ?thesis using trim_failure_closes [OF assms(2)] by blast
qed

section \<open>Witnesses\<close>

definition empty_dir :: open_env where
  "empty_dir = \<lparr>mkdir_err = None, open_err = None, stat_err = None, existing = [],
     joined = (\<lambda>dir device. dir @ ''/'' @ device)\<rparr>"

definition com3_recorder :: FileRecorder where
  "com3_recorder = \<lparr>rec_device = ''COM3'', rec_dir = ''./serial_logs'', maxSize = 2097152,
     trimSize = 1048576, writeCh = make_chan 256, stopped = False, file_open = True, fileSize = 0,
     disk = []\<rparr>"

lemma com3_opens: "NewFileRecorder ''COM3'' ''./serial_logs'' 2 1 empty_dir = Inr com3_recorder"
  by (simp add: NewFileRecorder_def empty_dir_def com3_recorder_def megabytes_exact)

lemma com3_drains:
  "recorder_reach (start_run com3_recorder)
     (start_run com3_recorder\<lparr>recorder := Stop com3_recorder, phase := Draining\<rparr>)"
proof -
  let ?s0 = "start_run com3_recorder"
  have "recorder_step ?s0 (?s0\<lparr>recorder := Stop com3_recorder\<rparr>)"
    using recorder_step.api_stop [of ?s0] by (simp add: start_run_def)
  moreover have "recorder_step (?s0\<lparr>recorder := Stop com3_recorder\<rparr>)
      (?s0\<lparr>recorder := Stop com3_recorder, phase := Draining\<rparr>)"
    using recorder_step.loop_stop [of "?s0\<lparr>recorder := Stop com3_recorder\<rparr>"]
    by (simp add: start_run_def Stop_def com3_recorder_def)
  ultimately show ?thesis by (blast intro: recorder_reach.intros)
qed

theorem recorder_keeps_newest_bytes_witness:
  "suffix (disk (process_all [''hello'', '' world''] com3_recorder))
     (existing empty_dir @ concat [''hello'', '' world'']) \<and>
   int (length (disk (process_all [''hello'', '' world''] com3_recorder))) < 2 * 1048576"
  using recorder_keeps_newest_bytes [OF com3_opens, of "[''hello'', '' world'']"]
  by (simp add: empty_dir_def)

theorem recorder_accounts_for_all_data_witness:
  "accepted (start_run com3_recorder\<lparr>recorder := Stop com3_recorder, phase := Draining\<rparr>) =
     processed (start_run com3_recorder\<lparr>recorder := Stop com3_recorder, phase := Draining\<rparr>) @
     buf (writeCh (recorder (start_run com3_recorder\<lparr>recorder := Stop com3_recorder, phase := Draining\<rparr>)))"
  using recorder_accounts_for_all_data [OF com3_opens com3_drains] by blast


theorem failed_trim_ends_recording_witness:
  "fold (\<lambda>(i, d). processWrite i d) [(io_ok, ''lost'')] (trim CreateFails com3_recorder) =
     trim CreateFails com3_recorder \<and> \<not> file_open (trim CreateFails com3_recorder)"
proof -
  have "file_open com3_recorder" and "CreateFails \<noteq> TrimOk" by (simp_all add: com3_recorder_def)
  then show ?thesis by (rule failed_trim_ends_recording)
qed

end
