(* ===== verification/RingBuffer.thy ===== *)
theory RingBuffer
  imports Prelude "HOL-Library.Sublist"
begin

text \<open>
  \<open>internal/serial/ringbuffer.go\<close>: the bounded in-memory history of a serial port. The model
  keeps the code's state (the entries, the two limits and the running byte total) and its
  panics: a negative capacity in \<open>make\<close>, an index into an empty slice in the eviction loop, a
  negative length in \<open>Tail\<close>. The specification is \<open>keep_newest\<close>: of everything ever appended, the
  buffer holds the longest suffix that fits both limits. The interface the session and the
  HTTP handlers rely on is the locale \<open>history\<close>, interpreted on the code's model below.
\<close>

section \<open>State and operations\<close>

text \<open>\<open>TS\<close> is the time stamp in nanoseconds.\<close>

record Entry =
  TS :: int
  Seq :: int
  Line :: string
  Bytes :: int

record RingBuffer =
  rb_entries :: "Entry list"
  maxLines :: int
  maxBytes :: int
  totalBytes :: int

definition NewRingBuffer :: "int \<Rightarrow> int \<Rightarrow> RingBuffer outcome" where
  "NewRingBuffer ml mb =
     (if ml < 0 then Panic ''makeslice: cap out of range''
      else Ret \<lparr>rb_entries = [], maxLines = ml, maxBytes = mb, totalBytes = 0\<rparr>)"

text \<open>
  The loop \<open>for len(entries) > maxLines || totalBytes > maxBytes\<close>; reading \<open>entries[0]\<close> of an
  empty slice panics.
\<close>

function evict :: "RingBuffer \<Rightarrow> RingBuffer outcome" where
  "evict rb =
     (if int (length (rb_entries rb)) > maxLines rb \<or> totalBytes rb > maxBytes rb
      then (case rb_entries rb of
              [] \<Rightarrow> Panic ''index out of range [0] with length 0''
            | removed # rest \<Rightarrow>
                evict (rb\<lparr>rb_entries := rest, totalBytes := totalBytes rb - Bytes removed\<rparr>))
      else Ret rb)"
  by pat_completeness auto
termination
  by (relation "measure (\<lambda>rb. length (rb_entries rb))") auto

declare evict.simps [simp del]

definition Append :: "RingBuffer \<Rightarrow> Entry \<Rightarrow> RingBuffer outcome" where
  "Append rb e = evict (rb\<lparr>rb_entries := rb_entries rb @ [e], totalBytes := totalBytes rb + Bytes e\<rparr>)"

definition Tail :: "RingBuffer \<Rightarrow> int \<Rightarrow> Entry list outcome" where
  "Tail rb n =
     (let m = (if n > int (length (rb_entries rb)) then int (length (rb_entries rb)) else n) in
      if m < 0 then Panic ''makeslice: len out of range''
      else Ret (drop (nat (int (length (rb_entries rb)) - m)) (rb_entries rb)))"

definition All :: "RingBuffer \<Rightarrow> Entry list" where
  "All rb = rb_entries rb"

section \<open>Specification\<close>

definition bytes_of :: "Entry list \<Rightarrow> int" where
  "bytes_of es = sum_list (map Bytes es)"

definition fits :: "int \<Rightarrow> int \<Rightarrow> Entry list \<Rightarrow> bool" where
  "fits ml mb es \<longleftrightarrow> int (length es) \<le> ml \<and> bytes_of es \<le> mb"

text \<open>The longest suffix that fits: drop from the front until it does.\<close>

fun keep_newest :: "int \<Rightarrow> int \<Rightarrow> Entry list \<Rightarrow> Entry list" where
  "keep_newest ml mb [] = []"
| "keep_newest ml mb (e # es) = (if fits ml mb (e # es) then e # es else keep_newest ml mb es)"

definition sized :: "Entry \<Rightarrow> bool" where
  "sized e \<longleftrightarrow> 0 \<le> Bytes e"

definition rb_ok :: "int \<Rightarrow> int \<Rightarrow> RingBuffer \<Rightarrow> bool" where
  "rb_ok ml mb rb \<longleftrightarrow> 0 \<le> ml \<and> 0 \<le> mb \<and> maxLines rb = ml \<and> maxBytes rb = mb \<and>
     totalBytes rb = bytes_of (rb_entries rb) \<and> fits ml mb (rb_entries rb) \<and>
     list_all sized (rb_entries rb)"

fun append_all :: "RingBuffer \<Rightarrow> Entry list \<Rightarrow> RingBuffer outcome" where
  "append_all rb [] = Ret rb"
| "append_all rb (e # es) = then_do (Append rb e) (\<lambda>rb'. append_all rb' es)"

section \<open>The interface of a bounded history\<close>

text \<open>
  What a client of the history may assume: appending never fails and keeps what the
  retention policy \<open>keep\<close> says, the policy only ever forgets the oldest entries, and having
  forgotten them early makes no difference later.
\<close>

locale history =
  fixes app :: "'b \<Rightarrow> 'e \<Rightarrow> 'b outcome"
    and contents :: "'b \<Rightarrow> 'e list"
    and tail_of :: "'b \<Rightarrow> int \<Rightarrow> 'e list outcome"
    and ok :: "'b \<Rightarrow> bool"
    and valid :: "'e \<Rightarrow> bool"
    and keep :: "'e list \<Rightarrow> 'e list"
  assumes app_ok: "ok b \<Longrightarrow> valid e \<Longrightarrow> \<exists>b'. app b e = Ret b' \<and> ok b' \<and> contents b' = keep (contents b @ [e])"
    and contents_kept: "ok b \<Longrightarrow> keep (contents b) = contents b \<and> list_all valid (contents b)"
    and keep_suffix: "suffix (keep es) es"
    and keep_early: "list_all valid es \<Longrightarrow> valid e \<Longrightarrow> keep (keep es @ [e]) = keep (es @ [e])"
    and tail_contents: "ok b \<Longrightarrow> 0 \<le> n \<Longrightarrow> tail_of b n = Ret (drop (length (contents b) - nat n) (contents b))"
begin

fun app_all :: "'b \<Rightarrow> 'e list \<Rightarrow> 'b outcome" where
  "app_all b [] = Ret b"
| "app_all b (e # es) = then_do (app b e) (\<lambda>b'. app_all b' es)"

lemma app_all_history:
  assumes "ok b" and "list_all valid hist" and "contents b = keep hist" and "list_all valid es"
  shows "\<exists>b'. app_all b es = Ret b' \<and> ok b' \<and> contents b' = keep (hist @ es)"
  using assms
proof (induction es arbitrary: b hist)
  case Nil
  then show ?case by simp
next
  case (Cons e es)
  then obtain b1 where b1: "app b e = Ret b1" "ok b1" "contents b1 = keep (contents b @ [e])"
    using app_ok [of b e] by auto
  with Cons.prems have "contents b1 = keep (hist @ [e])" by (simp add: keep_early)
  moreover have "list_all valid (hist @ [e])" using Cons.prems by simp
  ultimately obtain b2 where "app_all b1 es = Ret b2" "ok b2" "contents b2 = keep ((hist @ [e]) @ es)"
    using Cons.IH b1(2) Cons.prems by fastforce
  with b1 show ?case by simp
qed

lemma app_all_returns:
  assumes "ok b" and "list_all valid es"
  shows "\<exists>b'. app_all b es = Ret b' \<and> ok b' \<and> contents b' = keep (contents b @ es)"
  using app_all_history [of b "contents b" es] assms contents_kept by auto

lemma tail_suffix:
  assumes "ok b" and "0 \<le> n"
  shows "\<exists>es. tail_of b n = Ret es \<and> suffix es (contents b) \<and> length es = min (nat n) (length (contents b))"
  using tail_contents [OF assms] suffix_drop by fastforce

end

section \<open>The code implements it\<close>

lemma bytes_of_simps [simp]: "bytes_of [] = 0" "bytes_of (e # es) = Bytes e + bytes_of es"
  "bytes_of (es @ fs) = bytes_of es + bytes_of fs"
  by (simp_all add: bytes_of_def)

lemma bytes_of_nonneg: "list_all sized es \<Longrightarrow> 0 \<le> bytes_of es"
  by (induction es) (auto simp: sized_def)

lemma keep_newest_suffix: "suffix (keep_newest ml mb es) es"
  by (induction es) (auto intro: suffix_ConsI)

lemma keep_newest_id: "fits ml mb es \<Longrightarrow> keep_newest ml mb es = es"
  by (cases es) auto

lemma keep_newest_fits: "0 \<le> ml \<Longrightarrow> 0 \<le> mb \<Longrightarrow> fits ml mb (keep_newest ml mb es)"
  by (induction es) (auto simp: fits_def)

lemma keep_newest_longest:
  assumes "suffix fs es" and "fits ml mb fs" and "list_all sized es"
  shows "suffix fs (keep_newest ml mb es)"
  using assms by (induction es) (auto simp: suffix_Cons)

lemma fits_append_left: "list_all sized (es @ fs) \<Longrightarrow> fits ml mb (es @ fs) \<Longrightarrow> fits ml mb fs"
  using bytes_of_nonneg [of es] by (simp add: fits_def)

lemma fits_butlast: "sized e \<Longrightarrow> fits ml mb (es @ [e]) \<Longrightarrow> fits ml mb es"
  by (simp add: fits_def sized_def)

lemma keep_newest_early:
  assumes "list_all sized es" and "sized e"
  shows "keep_newest ml mb (keep_newest ml mb es @ [e]) = keep_newest ml mb (es @ [e])"
  using assms
proof (induction es)
  case Nil
  then show ?case by simp
next
  case (Cons d es)
  show ?case
  proof (cases "fits ml mb (d # es)")
    case True
    then show ?thesis by simp
  next
    case False
    with Cons.prems fits_butlast [of e ml mb "d # es"] have "\<not> fits ml mb (d # es @ [e])" by auto
    with False Cons show ?thesis by simp
  qed
qed

text \<open>The eviction loop computes \<open>keep_newest\<close>, and returns whenever both limits allow an empty buffer.\<close>

lemma evict_keeps:
  assumes "0 \<le> maxLines rb" and "0 \<le> maxBytes rb" and "totalBytes rb = bytes_of (rb_entries rb)"
  shows "evict rb = Ret (rb\<lparr>rb_entries := keep_newest (maxLines rb) (maxBytes rb) (rb_entries rb),
           totalBytes := bytes_of (keep_newest (maxLines rb) (maxBytes rb) (rb_entries rb))\<rparr>)"
  using assms
proof (induction rb rule: evict.induct)
  case (1 rb)
  show ?case
  proof (cases "rb_entries rb")
    case Nil
    with "1.prems" show ?thesis by (subst evict.simps) simp
  next
    case (Cons e es)
    have over: "int (length (rb_entries rb)) > maxLines rb \<or> totalBytes rb > maxBytes rb \<longleftrightarrow>
        \<not> fits (maxLines rb) (maxBytes rb) (e # es)"
      using "1.prems" by (auto simp: fits_def Cons)
    show ?thesis
    proof (cases "fits (maxLines rb) (maxBytes rb) (e # es)")
      case True
      then show ?thesis using over "1.prems" by (subst evict.simps) (simp add: Cons)
    next
      case False
      with over "1.IH" [OF _ Cons] "1.prems" show ?thesis
        by (subst evict.simps) (simp add: Cons)
    qed
  qed
qed

lemma Append_keeps:
  assumes "rb_ok ml mb rb" and "sized e"
  shows "\<exists>rb'. Append rb e = Ret rb' \<and> rb_ok ml mb rb' \<and>
    rb_entries rb' = keep_newest ml mb (rb_entries rb @ [e])"
proof -
  let ?es = "keep_newest ml mb (rb_entries rb @ [e])"
  have "list_all sized ?es"
    using assms set_mono_suffix [OF keep_newest_suffix [of ml mb "rb_entries rb @ [e]"]]
    by (auto simp: rb_ok_def list_all_iff)
  with assms show ?thesis
    by (auto simp: Append_def rb_ok_def evict_keeps keep_newest_fits)
qed

lemma Tail_contents:
  "0 \<le> n \<Longrightarrow> Tail rb n = Ret (drop (length (rb_entries rb) - nat n) (rb_entries rb))"
  by (auto simp: Tail_def Let_def nat_diff_distrib)

interpretation rb: history Append rb_entries Tail "rb_ok ml mb" sized "keep_newest ml mb"
  for ml mb
proof unfold_locales
  fix b e
  assume "rb_ok ml mb b" and "sized e"
  then show "\<exists>b'. Append b e = Ret b' \<and> rb_ok ml mb b' \<and>
      rb_entries b' = keep_newest ml mb (rb_entries b @ [e])"
    by (rule Append_keeps)
qed (auto simp: rb_ok_def keep_newest_id keep_newest_suffix keep_newest_early Tail_contents)

lemma append_all_eq: "append_all rb es = rb.app_all rb es"
  by (induction es arbitrary: rb) (auto intro!: arg_cong2 [where f = then_do])

lemma NewRingBuffer_ok:
  "0 \<le> ml \<Longrightarrow> 0 \<le> mb \<Longrightarrow> \<exists>rb. NewRingBuffer ml mb = Ret rb \<and> rb_ok ml mb rb \<and> rb_entries rb = []"
  by (simp add: NewRingBuffer_def rb_ok_def fits_def)

lemma bytes_of_pos_evict_panics:
  assumes "maxBytes rb < 0" and "totalBytes rb = bytes_of (rb_entries rb)"
    and "list_all sized (rb_entries rb)"
  shows "evict rb = Panic ''index out of range [0] with length 0''"
  using assms
proof (induction rb rule: evict.induct)
  case (1 rb)
  have over: "totalBytes rb > maxBytes rb"
    using "1.prems" bytes_of_nonneg [of "rb_entries rb"] by simp
  show ?case
  proof (cases "rb_entries rb")
    case Nil
    with over show ?thesis by (subst evict.simps) simp
  next
    case (Cons e es)
    with over "1.IH" [OF _ Cons] "1.prems" show ?thesis by (subst evict.simps) simp
  qed
qed

section \<open>Properties\<close>

text \<open>C2. The ring buffer implements the bounded history: whatever is appended to a new buffer
  with non-negative limits, no operation panics, and the buffer holds a suffix of everything
  appended that fits both limits and that contains every other suffix that fits; its byte
  counter is exact.\<close>

theorem ring_keeps_longest_suffix:
  assumes "0 \<le> ml" and "0 \<le> mb" and "\<forall>e \<in> set es. 0 \<le> Bytes e"
  shows "\<exists>rb. then_do (NewRingBuffer ml mb) (\<lambda>rb0. append_all rb0 es) = Ret rb \<and>
    suffix (All rb) es \<and> fits ml mb (All rb) \<and>
    (\<forall>fs. suffix fs es \<and> fits ml mb fs \<longrightarrow> suffix fs (All rb)) \<and>
    totalBytes rb = bytes_of (All rb)"
proof -
  have sized: "list_all sized es" using assms(3) by (auto simp: list_all_iff sized_def)
  obtain rb0 where rb0: "NewRingBuffer ml mb = Ret rb0" "rb_ok ml mb rb0" "rb_entries rb0 = []"
    using NewRingBuffer_ok assms by blast
  then obtain rb where rb: "append_all rb0 es = Ret rb" "rb_ok ml mb rb"
      "rb_entries rb = keep_newest ml mb es"
    using rb.app_all_returns [OF rb0(2) sized] by (auto simp: append_all_eq)
  have "\<forall>fs. suffix fs es \<and> fits ml mb fs \<longrightarrow> suffix fs (All rb)"
    using keep_newest_longest [OF _ _ sized] by (auto simp: All_def rb(3))
  with rb rb0 keep_newest_suffix [of ml mb es] show ?thesis
    by (auto simp: All_def rb_ok_def)
qed

text \<open>\<open>Tail(n)\<close> returns the last \<open>n\<close> entries in order, all of them when there are fewer; a
  negative \<open>n\<close> panics (the handlers must not pass one).\<close>

theorem Tail_returns_last:
  "Tail rb n = (if n < 0 then Panic ''makeslice: len out of range''
     else Ret (drop (length (All rb) - nat n) (All rb)))"
  by (auto simp: Tail_contents All_def) (auto simp: Tail_def)

text \<open>A negative byte limit makes the first append panic: the eviction loop never finds the
  buffer small enough and indexes an empty slice. Nothing in \<open>applyDefaults\<close> rejects such a
  limit.\<close>

theorem negative_limit_append_panics:
  assumes "0 \<le> ml" and "mb < 0" and "0 \<le> Bytes e"
  shows "then_do (NewRingBuffer ml mb) (\<lambda>rb. Append rb e) =
    Panic ''index out of range [0] with length 0''"
  using assms bytes_of_pos_evict_panics
  by (simp add: NewRingBuffer_def Append_def sized_def)

section \<open>Witnesses\<close>

definition sample_entry :: "int \<Rightarrow> string \<Rightarrow> Entry" where
  "sample_entry n s = \<lparr>TS = 0, Seq = n, Line = s, Bytes = int (length s)\<rparr>"

theorem ring_keeps_longest_suffix_witness:
  "\<exists>rb. then_do (NewRingBuffer 2 8)
      (\<lambda>rb0. append_all rb0 [sample_entry 1 ''boot'', sample_entry 2 ''login'', sample_entry 3 ''ok'']) = Ret rb \<and>
    suffix (All rb) [sample_entry 1 ''boot'', sample_entry 2 ''login'', sample_entry 3 ''ok''] \<and>
    fits 2 8 (All rb) \<and>
    (\<forall>fs. suffix fs [sample_entry 1 ''boot'', sample_entry 2 ''login'', sample_entry 3 ''ok''] \<and>
       fits 2 8 fs \<longrightarrow> suffix fs (All rb)) \<and>
    totalBytes rb = bytes_of (All rb)"
  by (rule ring_keeps_longest_suffix) (auto simp: sample_entry_def)

theorem negative_limit_append_panics_witness:
  "then_do (NewRingBuffer 5 (- 1)) (\<lambda>rb. Append rb (sample_entry 1 ''x'')) =
    Panic ''index out of range [0] with length 0''"
  by (rule negative_limit_append_panics) (auto simp: sample_entry_def)

end
