(* ===== verification/Utf8.thy ===== *)
theory Utf8
  imports GoStrings
begin

text \<open>
  UTF-8 as Go decodes it. A Go string is a byte sequence; \<open>for _, r := range s\<close>, regular
  expressions and \<open>utf8.DecodeRuneInString\<close> all read it rune by rune with the same rule: a
  well-formed sequence of one to four bytes gives its code point, any other byte gives
  U+FFFD and is one byte wide. \<open>rune_at\<close> is that rule, \<open>runes\<close> the range loop.
\<close>

definition rune_error :: nat where
  "rune_error = 65533"

definition is_cont :: "char \<Rightarrow> bool" where
  "is_cont c \<longleftrightarrow> 128 \<le> (of_char c :: nat) \<and> (of_char c :: nat) \<le> 191"

text \<open>The range of the second byte depends on the first: no overlong forms, no surrogates.\<close>

definition second_ok :: "nat \<Rightarrow> nat \<Rightarrow> bool" where
  "second_ok b0 b1 \<longleftrightarrow>
     (if b0 = 224 then 160 \<le> b1 \<and> b1 \<le> 191
      else if b0 = 237 then 128 \<le> b1 \<and> b1 \<le> 159
      else if b0 = 240 then 144 \<le> b1 \<and> b1 \<le> 191
      else if b0 = 244 then 128 \<le> b1 \<and> b1 \<le> 143
      else 128 \<le> b1 \<and> b1 \<le> 191)"

fun decode2 :: "nat \<Rightarrow> string \<Rightarrow> nat \<times> nat" where
  "decode2 b0 (c1 # _) =
     (if second_ok b0 (of_char c1) then ((b0 - 192) * 64 + (of_char c1 - 128), 2)
      else (rune_error, 1))"
| "decode2 b0 [] = (rune_error, 1)"

fun decode3 :: "nat \<Rightarrow> string \<Rightarrow> nat \<times> nat" where
  "decode3 b0 (c1 # c2 # _) =
     (if second_ok b0 (of_char c1) \<and> is_cont c2
      then ((b0 - 224) * 4096 + (of_char c1 - 128) * 64 + (of_char c2 - 128), 3)
      else (rune_error, 1))"
| "decode3 b0 _ = (rune_error, 1)"

fun decode4 :: "nat \<Rightarrow> string \<Rightarrow> nat \<times> nat" where
  "decode4 b0 (c1 # c2 # c3 # _) =
     (if second_ok b0 (of_char c1) \<and> is_cont c2 \<and> is_cont c3
      then ((b0 - 240) * 262144 + (of_char c1 - 128) * 4096 + (of_char c2 - 128) * 64
              + (of_char c3 - 128), 4)
      else (rune_error, 1))"
| "decode4 b0 _ = (rune_error, 1)"

text \<open>\<open>rune_at (c # cs)\<close>: the rune at the start of the string and its width in bytes.\<close>

fun rune_at :: "string \<Rightarrow> nat \<times> nat" where
  "rune_at [] = (rune_error, 0)"
| "rune_at (c # cs) =
     (let b0 = of_char c in
      if b0 < 128 then (b0, 1)
      else if 194 \<le> b0 \<and> b0 \<le> 223 then decode2 b0 cs
      else if 224 \<le> b0 \<and> b0 \<le> 239 then decode3 b0 cs
      else if 240 \<le> b0 \<and> b0 \<le> 244 then decode4 b0 cs
      else (rune_error, 1))"

lemma decode2_width: "snd (decode2 b cs) \<in> {1, 2}"
  by (cases cs) auto

lemma decode3_width: "snd (decode3 b cs) \<in> {1, 3}"
  by (cases "(b, cs)" rule: decode3.cases) auto

lemma decode4_width: "snd (decode4 b cs) \<in> {1, 4}"
  by (cases "(b, cs)" rule: decode4.cases) auto

lemma rune_at_width: "1 \<le> snd (rune_at (c # cs)) \<and> snd (rune_at (c # cs)) \<le> 4"
  using decode2_width [of "of_char c" cs] decode3_width [of "of_char c" cs]
    decode4_width [of "of_char c" cs]
  by (auto simp: Let_def)

function runes :: "string \<Rightarrow> nat list" where
  "runes [] = []"
| "runes (c # cs) = fst (rune_at (c # cs)) # runes (drop (snd (rune_at (c # cs))) (c # cs))"
  by pat_completeness auto
termination
proof (relation "measure length")
  fix c :: char and cs :: string
  show "(drop (snd (rune_at (c # cs))) (c # cs), c # cs) \<in> measure length"
    using rune_at_width [of c cs] by (simp del: rune_at.simps)
qed simp

definition is_ascii :: "char \<Rightarrow> bool" where
  "is_ascii c \<longleftrightarrow> (of_char c :: nat) < 128"

lemma rune_at_ascii: "is_ascii c \<Longrightarrow> rune_at (c # cs) = (of_char c, 1)"
  by (simp add: is_ascii_def Let_def)

lemma runes_ascii_Cons: "is_ascii c \<Longrightarrow> runes (c # cs) = of_char c # runes cs"
  by (simp add: rune_at_ascii del: rune_at.simps)

lemma runes_ascii: "\<forall>c \<in> set s. is_ascii c \<Longrightarrow> runes s = map of_char s"
  by (induction s) (auto simp: runes_ascii_Cons simp del: runes.simps(2))

lemma rune_at_cases:
  "\<not> is_ascii c \<Longrightarrow> rune_at (c # cs) \<in>
     {(rune_error, 1), decode2 (of_char c) cs, decode3 (of_char c) cs, decode4 (of_char c) cs}"
  by (simp add: is_ascii_def Let_def)

text \<open>No multi-byte rune swallows an ASCII byte: continuation bytes are 128 and above.\<close>

lemma decode_no_ascii:
  assumes "\<not> is_ascii c" and "d \<in> set (take (snd (rune_at (c # cs))) (c # cs))"
  shows "\<not> is_ascii d"
proof -
  have sec: "\<not> is_ascii x" if "second_ok b (of_char x)" for b x
    using that by (auto simp: second_ok_def is_ascii_def split: if_splits)
  have cont: "\<not> is_ascii x" if "is_cont x" for x
    using that by (auto simp: is_cont_def is_ascii_def)
  have two: "\<not> is_ascii d" if "d \<in> set (take (snd (decode2 b cs)) (c # cs))" for b
    using that assms(1) by (cases cs) (auto dest: sec split: if_splits)
  have three: "\<not> is_ascii d" if "d \<in> set (take (snd (decode3 b cs)) (c # cs))" for b
    using that assms(1)
    by (cases "(b, cs)" rule: decode3.cases) (auto dest: sec cont split: if_splits)
  have four: "\<not> is_ascii d" if "d \<in> set (take (snd (decode4 b cs)) (c # cs))" for b
    using that assms(1)
    by (cases "(b, cs)" rule: decode4.cases) (auto dest: sec cont split: if_splits)
  consider "rune_at (c # cs) = (rune_error, 1)" | "rune_at (c # cs) = decode2 (of_char c) cs"
    | "rune_at (c # cs) = decode3 (of_char c) cs" | "rune_at (c # cs) = decode4 (of_char c) cs"
    using rune_at_cases [OF assms(1), of cs] by blast
  then show ?thesis
    using assms two three four by cases (simp_all del: rune_at.simps)
qed

text \<open>A code point of at most 127 comes from exactly that ASCII byte.\<close>

lemma rune_at_small:
  assumes "fst (rune_at (c # cs)) < 128"
  shows "is_ascii c"
proof (rule ccontr)
  assume n: "\<not> is_ascii c"
  have two: "128 \<le> fst (decode2 b cs)" if "194 \<le> b" for b
    using that by (cases cs) (auto simp: rune_error_def)
  have three: "128 \<le> fst (decode3 b cs)" if b: "224 \<le> b" for b
  proof (cases "(b, cs)" rule: decode3.cases)
    case (1 b0 c1 c2 cs')
    have "128 \<le> (b - 224) * 4096 + (of_char c1 - 128) * 64" if "second_ok b (of_char c1)"
      using that b by (cases "b = 224") (auto simp: second_ok_def)
    with 1 show ?thesis by (auto simp: rune_error_def)
  qed (auto simp: rune_error_def)
  have four: "128 \<le> fst (decode4 b cs)" if b: "240 \<le> b" for b
  proof (cases "(b, cs)" rule: decode4.cases)
    case (1 b0 c1 c2 c3 cs')
    have "128 \<le> (b - 240) * 262144 + (of_char c1 - 128) * 4096" if "second_ok b (of_char c1)"
      using that b by (cases "b = 240") (auto simp: second_ok_def)
    with 1 show ?thesis by (auto simp: rune_error_def)
  qed (auto simp: rune_error_def)
  have "128 \<le> fst (rune_at (c # cs))"
    using n two three four by (auto simp: is_ascii_def Let_def rune_error_def)
  with assms show False by simp
qed

end
