(* ===== verification/LineReader.thy ===== *)
theory LineReader
  imports RingBuffer Utf8
begin

text \<open>
  The line assembly of \<open>readLoop\<close> in \<open>internal/serial/session.go\<close> (lines 212 to 237): bytes read
  from the port are appended to \<open>lineBuf\<close>, every complete line is cut off, trimmed, reduced to
  what follows its last carriage return, stripped of ANSI escapes, numbered and appended to
  the ring buffer. The regular expression \<open>\x1b\[[0-9;]*[A-Za-z]|\x1b[^[A-Za-z]?[A-Za-z]\<close> is
  modelled as a matcher at one position, tried from left to right as
  \<open>ReplaceAllString\<close> does; its negated class consumes one rune.
\<close>

section \<open>ANSI escapes\<close>

definition esc :: char where
  "esc = CHR 0x1B"

definition is_letter :: "char \<Rightarrow> bool" where
  "is_letter c \<longleftrightarrow> 65 \<le> (of_char c :: nat) \<and> (of_char c :: nat) \<le> 90 \<or>
     97 \<le> (of_char c :: nat) \<and> (of_char c :: nat) \<le> 122"

definition is_param :: "char \<Rightarrow> bool" where
  "is_param c \<longleftrightarrow> is_digit c \<or> c = CHR '';''"

definition starts_with_letter :: "string \<Rightarrow> bool" where
  "starts_with_letter s = (case s of [] \<Rightarrow> False | c # _ \<Rightarrow> is_letter c)"

text \<open>
  \<open>after_esc s\<close>: how many bytes of \<open>s\<close>, the text after an escape byte, belong to the match. First
  alternative: a bracket, parameters, a letter. Second: a letter, or one rune that is neither
  a bracket nor a letter and then a letter.
\<close>

fun after_esc :: "string \<Rightarrow> nat option" where
  "after_esc [] = None"
| "after_esc (c # cs) =
     (if c = CHR ''['' then
        (let ps = takeWhile is_param cs in
         if starts_with_letter (drop (length ps) cs) then Some (length ps + 2) else None)
      else if is_letter c then Some 1
      else (let w = snd (rune_at (c # cs)) in
            if starts_with_letter (drop w (c # cs)) then Some (w + 1) else None))"

function strip_ansi :: "string \<Rightarrow> string" where
  "strip_ansi [] = []"
| "strip_ansi (c # cs) =
     (if c = esc then
        (case after_esc cs of
           Some n \<Rightarrow> strip_ansi (drop n cs)
         | None \<Rightarrow> c # strip_ansi cs)
      else c # strip_ansi cs)"
  by pat_completeness auto
termination
  by (relation "measure length") auto

section \<open>One line\<close>

definition after_last_cr :: "string \<Rightarrow> string" where
  "after_last_cr line =
     (case last_index line carriage_return of Some i \<Rightarrow> drop (Suc i) line | None \<Rightarrow> line)"

definition clean_line :: "bytes \<Rightarrow> string" where
  "clean_line raw = strip_ansi (after_last_cr (trim_right raw carriage_return))"

section \<open>The inner loop\<close>

text \<open>
  \<open>cut_lines lineBuf\<close>: the raw lines the inner loop cuts off, in order, and what is left in
  \<open>lineBuf\<close> when no newline remains.
\<close>

function cut_lines :: "bytes \<Rightarrow> bytes list \<times> bytes" where
  "cut_lines buf =
     (case index_byte buf newline of
        None \<Rightarrow> ([], buf)
      | Some idx \<Rightarrow> (let (ls, rest) = cut_lines (drop (Suc idx) buf) in (take idx buf # ls, rest)))"
  by pat_completeness auto
termination
proof (relation "measure length")
  fix buf :: bytes and idx
  assume "index_byte buf newline = Some idx"
  then show "(drop (Suc idx) buf, buf) \<in> measure length"
    using index_byte_Some [of buf newline idx] by auto
qed simp

declare cut_lines.simps [simp del]

text \<open>The reader's state: the partial line, the sequence counter and the ring buffer.\<close>

record LineState =
  lineBuf :: bytes
  seqCounter :: int
  ring :: RingBuffer

text \<open>
  One pass of the inner loop's body for a cut line; \<open>now n\<close> is the clock when line \<open>n\<close> is
  stamped.
\<close>

definition store_line :: "(int \<Rightarrow> int) \<Rightarrow> bytes \<Rightarrow> LineState \<Rightarrow> LineState outcome" where
  "store_line now raw s =
     (let line = clean_line raw; seq = seqCounter s + 1 in
      then_do (Append (ring s) \<lparr>TS = now seq, Seq = seq, Line = line, Bytes = int (length line)\<rparr>)
        (\<lambda>rb. Ret (s\<lparr>seqCounter := seq, ring := rb\<rparr>)))"

fun store_lines :: "(int \<Rightarrow> int) \<Rightarrow> bytes list \<Rightarrow> LineState \<Rightarrow> LineState outcome" where
  "store_lines now [] s = Ret s"
| "store_lines now (raw # raws) s = then_do (store_line now raw s) (store_lines now raws)"

text \<open>What \<open>readLoop\<close> does to this state with one successful read of \<open>data\<close>.\<close>

definition feed :: "(int \<Rightarrow> int) \<Rightarrow> bytes \<Rightarrow> LineState \<Rightarrow> LineState outcome" where
  "feed now data s =
     (let (raws, rest) = cut_lines (lineBuf s @ data) in
      store_lines now raws (s\<lparr>lineBuf := rest\<rparr>))"

fun feed_all :: "(int \<Rightarrow> int) \<Rightarrow> bytes list \<Rightarrow> LineState \<Rightarrow> LineState outcome" where
  "feed_all now [] s = Ret s"
| "feed_all now (d # ds) s = then_do (feed now d s) (feed_all now ds)"

section \<open>Lemmas: cutting lines\<close>

lemma feed_all_Nil [simp]: "feed_all now [] = Ret"
  by (rule ext) simp

lemma cut_lines_none: "newline \<notin> set buf \<Longrightarrow> cut_lines buf = ([], buf)"
  by (subst cut_lines.simps) simp

lemma cut_lines_Cons:
  "newline \<notin> set l \<Longrightarrow> cut_lines (l @ newline # buf) = (l # fst (cut_lines buf), snd (cut_lines buf))"
  by (subst cut_lines.simps) (simp add: case_prod_beta)

text \<open>Induction over a byte stream, a line at a time.\<close>

lemma line_induct [case_names partial line]:
  assumes "\<And>buf. newline \<notin> set buf \<Longrightarrow> P buf"
    and "\<And>l rest. newline \<notin> set l \<Longrightarrow> P rest \<Longrightarrow> P (l @ newline # rest)"
  shows "P buf"
proof (induction buf rule: length_induct)
  case (1 buf)
  show ?case
  proof (cases "newline \<in> set buf")
    case True
    then obtain l rest where "buf = l @ newline # rest" and "newline \<notin> set l"
      using split_list_first by metis
    with 1 show ?thesis by (simp add: assms(2))
  qed (rule assms(1))
qed

lemma cut_lines_append:
  "cut_lines (buf @ data) =
     (fst (cut_lines buf) @ fst (cut_lines (snd (cut_lines buf) @ data)),
      snd (cut_lines (snd (cut_lines buf) @ data)))"
  by (induction buf rule: line_induct) (simp_all add: cut_lines_none cut_lines_Cons)

lemma cut_lines_rest: "newline \<notin> set (snd (cut_lines buf))"
  by (induction buf rule: line_induct) (simp_all add: cut_lines_none cut_lines_Cons)

lemma cut_lines_raw: "raw \<in> set (fst (cut_lines buf)) \<Longrightarrow> newline \<notin> set raw"
  by (induction buf rule: line_induct) (auto simp: cut_lines_none cut_lines_Cons)

text \<open>Nothing is lost or reordered: lines and rest put together again give the bytes read.\<close>

lemma cut_lines_join:
  "concat (map (\<lambda>l. l @ [newline]) (fst (cut_lines buf))) @ snd (cut_lines buf) = buf"
  by (induction buf rule: line_induct) (simp_all add: cut_lines_none cut_lines_Cons)

section \<open>Lemmas: cleaning a line\<close>

lemma strip_ansi_id: "esc \<notin> set s \<Longrightarrow> strip_ansi s = s"
  by (induction s) auto

lemma strip_ansi_subset: "set (strip_ansi s) \<subseteq> set s"
proof (induction s rule: strip_ansi.induct)
  case (2 c cs)
  have "set (drop n cs) \<subseteq> set (c # cs)" for n
    using set_drop_subset [of n cs] by auto
  with 2 show ?case
    by (cases "after_esc cs") (simp_all, blast+)
qed simp

lemma strip_ansi_length: "length (strip_ansi s) \<le> length s"
proof (induction s rule: strip_ansi.induct)
  case (2 c cs)
  then show ?case by (cases "c = esc"; cases "after_esc cs"; fastforce)
qed simp

lemma after_last_cr_no_cr: "carriage_return \<notin> set (after_last_cr line)"
  using last_index_Some [of line carriage_return]
  by (auto simp: after_last_cr_def split: option.splits)

lemma after_last_cr_subset: "set (after_last_cr line) \<subseteq> set line"
  using set_drop_subset by (fastforce simp: after_last_cr_def split: option.splits)

lemma after_last_cr_length: "length (after_last_cr line) \<le> length line"
  by (simp add: after_last_cr_def split: option.splits)

lemma clean_line_length: "length (clean_line raw) \<le> length raw"
  unfolding clean_line_def
  by (meson strip_ansi_length after_last_cr_length trim_right_prefix prefix_length_le le_trans)

lemma clean_line_chars:
  "set (clean_line raw) \<subseteq> set raw - {carriage_return}"
  using strip_ansi_subset after_last_cr_subset after_last_cr_no_cr trim_right_subset
  unfolding clean_line_def by blast

lemma clean_line_plain:
  "carriage_return \<notin> set raw \<Longrightarrow> esc \<notin> set raw \<Longrightarrow>
   clean_line (raw @ replicate n carriage_return) = raw"
  by (simp add: clean_line_def trim_right_replicate trim_right_id after_last_cr_def strip_ansi_id
      iffD2 [OF last_index_None])

lemma strip_ansi_skip: "esc \<notin> set a \<Longrightarrow> strip_ansi (a @ s) = a @ strip_ansi s"
  by (induction a) auto

lemma letter_not_param: "is_letter c \<Longrightarrow> \<not> is_param c"
  by (auto simp: is_letter_def is_param_def is_digit_def)

lemma after_esc_csi:
  assumes "\<forall>p \<in> set ps. is_param p" and "is_letter l"
  shows "after_esc (CHR ''['' # ps @ l # b) = Some (length ps + 2)"
proof -
  have "takeWhile is_param (ps @ l # b) = ps"
    using assms letter_not_param [of l] by (simp add: takeWhile_append2)
  with assms(2) show ?thesis by (simp add: starts_with_letter_def)
qed

section \<open>Lemmas: storing lines\<close>

text \<open>The entries the loop appends for the raw lines, numbered from the counter on.\<close>

fun numbered :: "(int \<Rightarrow> int) \<Rightarrow> int \<Rightarrow> bytes list \<Rightarrow> Entry list" where
  "numbered now n [] = []"
| "numbered now n (raw # raws) =
     \<lparr>TS = now (n + 1), Seq = n + 1, Line = clean_line raw, Bytes = int (length (clean_line raw))\<rparr>
       # numbered now (n + 1) raws"

lemma numbered_append:
  "numbered now n (rs @ qs) = numbered now n rs @ numbered now (n + int (length rs)) qs"
  by (induction rs arbitrary: n) (auto simp: add_ac)

lemma numbered_sized: "list_all sized (numbered now n raws)"
  by (induction raws arbitrary: n) (auto simp: sized_def)

lemma numbered_Line: "map Line (numbered now n raws) = map clean_line raws"
  by (induction raws arbitrary: n) auto

lemma numbered_Seq: "map Seq (numbered now n raws) = [n + 1..n + int (length raws)]"
  by (induction raws arbitrary: n) (auto simp: upto_rec1 add_ac)

lemma numbered_Bytes: "e \<in> set (numbered now n raws) \<Longrightarrow> Bytes e = int (length (Line e))"
  by (induction raws arbitrary: n) auto

lemma store_lines_append:
  "store_lines now (rs @ qs) s = then_do (store_lines now rs s) (store_lines now qs)"
  by (induction rs arbitrary: s) (auto simp: then_do_assoc intro!: then_do_cong)

lemma store_line_lineBuf:
  "store_line now raw (s\<lparr>lineBuf := b\<rparr>) =
     then_do (store_line now raw s) (\<lambda>t. Ret (t\<lparr>lineBuf := b\<rparr>))"
  by (cases s) (simp add: store_line_def Let_def then_do_assoc)

lemma store_lines_lineBuf:
  "store_lines now rs (s\<lparr>lineBuf := b\<rparr>) =
     then_do (store_lines now rs s) (\<lambda>t. Ret (t\<lparr>lineBuf := b\<rparr>))"
proof (induction rs arbitrary: s)
  case (Cons r rs)
  then show ?case by (simp add: store_line_lineBuf then_do_assoc)
qed simp

lemma store_line_keeps_lineBuf: "store_line now raw s = Ret t \<Longrightarrow> lineBuf t = lineBuf s"
  by (auto simp: store_line_def Let_def then_do_eq_Ret)

lemma store_lines_as_appends:
  "store_lines now raws s =
     then_do (append_all (ring s) (numbered now (seqCounter s) raws))
       (\<lambda>rb. Ret (s\<lparr>seqCounter := seqCounter s + int (length raws), ring := rb\<rparr>))"
proof (induction raws arbitrary: s)
  case (Cons raw raws)
  then show ?case by (simp add: store_line_def Let_def then_do_assoc add_ac)
qed simp

lemma feed_twice:
  "then_do (feed now d s) (feed now e) = feed now (d @ e) s"
proof -
  let ?b = "lineBuf s @ d"
  let ?r = "snd (cut_lines ?b)"
  let ?c = "cut_lines (?r @ e)"
  have "feed now (d @ e) s =
      store_lines now (fst (cut_lines ?b) @ fst ?c) (s\<lparr>lineBuf := snd ?c\<rparr>)"
    using cut_lines_append [of ?b e] by (simp add: feed_def case_prod_beta)
  also have "\<dots> = then_do (store_lines now (fst (cut_lines ?b)) s)
      (\<lambda>t. store_lines now (fst ?c) (t\<lparr>lineBuf := snd ?c\<rparr>))"
    by (simp add: store_lines_append store_lines_lineBuf then_do_assoc)
  also have "\<dots> = then_do (feed now d s) (feed now e)"
    by (simp add: feed_def case_prod_beta store_lines_lineBuf [where s = s] then_do_assoc)
  finally show ?thesis ..
qed

section \<open>Properties\<close>

text \<open>C8. How the operating system splits the serial stream into reads makes no difference: the
  reader ends in the same state (lines, numbers, partial line, ring buffer, or panic) as if
  all bytes had arrived in one read.\<close>

theorem chunking_is_invisible:
  assumes "newline \<notin> set (lineBuf s)"
  shows "feed_all now chunks s = feed now (concat chunks) s"
  using assms
proof (induction chunks rule: rev_induct)
  case Nil
  then show ?case by (simp add: feed_def cut_lines_none)
next
  case (snoc d ds)
  have "feed_all now (ds @ [d]) s = then_do (feed_all now ds s) (feed now d)"
    by (induction ds arbitrary: s) (auto simp: then_do_assoc intro!: then_do_cong)
  with snoc show ?case by (simp add: feed_twice)
qed

text \<open>C32. What the history holds: from a reader with an empty history and any limits, feeding a
  byte stream never panics; the stream is exactly its lines, each followed by a newline, and
  the partial line kept for the next read; the history is the longest suffix that fits of
  the cleaned lines, numbered one after the other; the counter counts every line.\<close>

theorem feed_stores_cleaned_lines:
  assumes "NewRingBuffer ml mb = Ret rb0" and "0 \<le> mb"
  shows "\<exists>raws t. feed now data \<lparr>lineBuf = [], seqCounter = 0, ring = rb0\<rparr> = Ret t \<and>
    data = concat (map (\<lambda>l. l @ [newline]) raws) @ lineBuf t \<and>
    (\<forall>l \<in> set (lineBuf t # raws). newline \<notin> set l) \<and>
    seqCounter t = int (length raws) \<and>
    All (ring t) = keep_newest ml mb (numbered now 0 raws) \<and>
    map Line (numbered now 0 raws) = map clean_line raws \<and>
    map Seq (numbered now 0 raws) = [1..int (length raws)]"
proof -
  let ?raws = "fst (cut_lines data)" and ?rest = "snd (cut_lines data)"
  have ok: "rb_ok ml mb rb0" "rb_entries rb0 = []"
    using assms by (auto simp: NewRingBuffer_def rb_ok_def fits_def split: if_splits)
  obtain rb where rb: "append_all rb0 (numbered now 0 ?raws) = Ret rb"
      "rb_entries rb = keep_newest ml mb (numbered now 0 ?raws)"
    using rb.app_all_returns [OF ok(1) numbered_sized [of now 0 ?raws]] ok(2)
    by (auto simp: append_all_eq)
  then have "feed now data \<lparr>lineBuf = [], seqCounter = 0, ring = rb0\<rparr> =
      Ret \<lparr>lineBuf = ?rest, seqCounter = int (length ?raws), ring = rb\<rparr>"
    by (simp add: feed_def case_prod_beta store_lines_as_appends)
  moreover have "\<forall>l \<in> set (?rest # ?raws). newline \<notin> set l"
    using cut_lines_rest cut_lines_raw by auto
  ultimately show ?thesis
    using rb(2) cut_lines_join [of data] numbered_Line [of now 0 ?raws] numbered_Seq [of now 0 ?raws]
    by (intro exI [of _ ?raws] exI) (auto simp: All_def)
qed

text \<open>A stored line never contains a carriage return or any byte that was not in the raw line,
  so no newline either; a plain line is stored byte for byte, with any number of trailing
  carriage returns removed.\<close>

theorem clean_line_result:
  "set (clean_line raw) \<subseteq> set raw - {carriage_return} \<and>
   length (clean_line raw) \<le> length raw \<and>
   (esc \<notin> set raw \<and> carriage_return \<notin> set raw \<longrightarrow>
      clean_line (raw @ replicate n carriage_return) = raw)"
  using clean_line_chars clean_line_length clean_line_plain by blast

text \<open>A control sequence (escape, bracket, parameters, letter) is removed and nothing around it.\<close>

theorem strip_ansi_removes_csi:
  assumes "esc \<notin> set a" and "\<forall>p \<in> set ps. is_param p" and "is_letter l"
  shows "strip_ansi (a @ esc # CHR ''['' # ps @ l # b) = a @ strip_ansi b"
  using assms by (simp add: strip_ansi_skip after_esc_csi del: after_esc.simps)

section \<open>Witnesses\<close>

definition empty_ring :: RingBuffer where
  "empty_ring = \<lparr>rb_entries = [], maxLines = 100, maxBytes = 1000, totalBytes = 0\<rparr>"

definition fresh_reader :: LineState where
  "fresh_reader = \<lparr>lineBuf = [], seqCounter = 0, ring = empty_ring\<rparr>"

theorem chunking_is_invisible_witness:
  "newline \<notin> set (lineBuf fresh_reader) \<and>
   feed_all (\<lambda>_. 0) [''log'', ''in:'' @ newline # ''ro'', ''ot'' @ [newline]] fresh_reader =
   feed (\<lambda>_. 0) (concat [''log'', ''in:'' @ newline # ''ro'', ''ot'' @ [newline]]) fresh_reader"
proof -
  have h: "newline \<notin> set (lineBuf fresh_reader)" by (simp add: fresh_reader_def)
  show ?thesis using h chunking_is_invisible [OF h] by blast
qed

theorem feed_stores_cleaned_lines_witness:
  "\<exists>raws t. feed (\<lambda>_. 0) (''boot'' @ newline # ''lo'')
      \<lparr>lineBuf = [], seqCounter = 0, ring = empty_ring\<rparr> = Ret t \<and>
    ''boot'' @ newline # ''lo'' = concat (map (\<lambda>l. l @ [newline]) raws) @ lineBuf t \<and>
    (\<forall>l \<in> set (lineBuf t # raws). newline \<notin> set l) \<and>
    seqCounter t = int (length raws) \<and>
    All (ring t) = keep_newest 100 1000 (numbered (\<lambda>_. 0) 0 raws) \<and>
    map Line (numbered (\<lambda>_. 0) 0 raws) = map clean_line raws \<and>
    map Seq (numbered (\<lambda>_. 0) 0 raws) = [1..int (length raws)]"
  by (rule feed_stores_cleaned_lines) (simp_all add: NewRingBuffer_def empty_ring_def)

theorem clean_line_result_witness:
  "esc \<notin> set ''login: '' \<and> carriage_return \<notin> set ''login: '' \<and>
   clean_line (''login: '' @ replicate 2 carriage_return) = ''login: ''"
proof -
  have h: "esc \<notin> set ''login: '' \<and> carriage_return \<notin> set ''login: ''" by (simp add: esc_def)
  show ?thesis using h clean_line_result [of "''login: ''" 2] by blast
qed

theorem strip_ansi_removes_csi_witness:
  "strip_ansi (''ok '' @ esc # CHR ''['' # ''1;31'' @ CHR ''m'' # ''red'') = ''ok '' @ strip_ansi ''red''"
  by (rule strip_ansi_removes_csi) (simp_all add: esc_def is_param_def is_digit_def is_letter_def)

end
