(* ===== verification/Session.thy ===== *)
theory Session
  imports Config LineReader Channels
begin

text \<open>
  \<open>internal/serial/session.go\<close>: one serial port with its reader, writer and reconnect goroutines.
  This theory holds the state and the operations; \<open>SessionMachine\<close> holds the interleavings.

  A port handle, a stop channel, a subscriber's channel and a \<open>Done\<close> channel are numbers. The state
  records which handles the operating system has open (\<open>open_ports\<close>), which stop channels are
  closed, the contents of the subscribers' channels, what reached the device (\<open>wire\<close>) and what was
  sent on the \<open>Done\<close> channels (\<open>replies\<close>; \<open>lost\<close> lists requests taken from the queue and dropped
  without a reply). \<open>goroutines\<close> maps each running goroutine to where it stands.

  The session knows its recorder only by the interface \<open>interface{ Write([]byte) }\<close>: the field holds
  the number of the recorder object, and \<open>recorded\<close> lists the calls of its method, in order.
\<close>

section \<open>State\<close>

record WriteRequest =
  Data :: bytes
  Done :: nat

text \<open>
  Where a goroutine stands: before its first statement, at the top of its loop with the stop
  channel it captured, or between two operations that other goroutines can interrupt.
\<close>

datatype goroutine =
    ReadStart
  | ReadTop nat bytes
  | ReadPort nat bytes
  | ReadBlocked nat bytes nat
  | ReadFailed
  | ReadDisconnect
  | ReadBroadcast nat bytes bytes
  | ReadRecord nat bytes bytes
  | ReadLines nat bytes
  | ReadAppend nat bytes Entry
  | WriteStart
  | WriteTop nat
  | WriteGot nat WriteRequest
  | WritePort nat WriteRequest nat
  | ReconStart
  | ReconTop nat
  | ReconOpen nat
  | ReconBroadcast
  | CloseTail

record Session =
  sess_device :: string
  sess_baudrate :: int
  sess_cfg :: Config
  port :: "nat option"
  connected :: bool
  sess_writeCh :: "WriteRequest chan"
  subscribers :: "nat list"
  channels :: "nat \<Rightarrow> string chan"
  ringBuffer :: RingBuffer
  seq_counter :: int
  sess_recorder :: "nat option"
  recorded :: "(nat \<times> bytes) list"
  stopCh :: nat
  closed_stops :: "nat list"
  goroutines :: "nat \<Rightarrow> goroutine option"
  open_ports :: "nat list"
  wire :: "(nat \<times> bytes) list"
  replies :: "(nat \<times> error option) list"
  lost :: "nat list"
  next_port :: nat
  next_chan :: nat
  next_stop :: nat
  next_go :: nat
  next_req :: nat

section \<open>Creation\<close>

text \<open>The loop over \<open>cfg.Ports\<close>: the last entry for the device with a baud rate wins.\<close>

fun override_baudrate :: "string \<Rightarrow> PortConfig list \<Rightarrow> int \<Rightarrow> int" where
  "override_baudrate device [] b = b"
| "override_baudrate device (p # ps) b =
     override_baudrate device ps
       (if pc_Device p = device \<and> pc_Baudrate p \<noteq> 0 then pc_Baudrate p else b)"

definition port_baudrate :: "Config \<Rightarrow> string \<Rightarrow> int" where
  "port_baudrate cfg device = override_baudrate device (Ports cfg) (sd_Baudrate (Serial_Defaults cfg))"

definition NewSerialSession :: "string \<Rightarrow> Config \<Rightarrow> Session outcome" where
  "NewSerialSession device cfg =
     then_do (NewRingBuffer (rbc_MaxLines (Ring_Buffer cfg)) (rbc_MaxBytes (Ring_Buffer cfg)))
       (\<lambda>rb. Ret
         \<lparr>sess_device = device, sess_baudrate = port_baudrate cfg device, sess_cfg = cfg,
          port = None, connected = False, sess_writeCh = make_chan 64,
          subscribers = [], channels = (\<lambda>_. make_chan 64), ringBuffer = rb, seq_counter = 0,
          sess_recorder = None, recorded = [], stopCh = 0, closed_stops = [],
          goroutines = (\<lambda>_. None), open_ports = [], wire = [], replies = [], lost = [],
          next_port = 0, next_chan = 0, next_stop = 1, next_go = 0, next_req = 0\<rparr>)"

definition SetRecorder :: "nat \<Rightarrow> Session \<Rightarrow> Session" where
  "SetRecorder r s = s\<lparr>sess_recorder := Some r\<rparr>"

definition IsConnected :: "Session \<Rightarrow> bool" where
  "IsConnected s = connected s"

section \<open>Open and Close\<close>

datatype parity = NoParity | EvenParity | OddParity | MarkParity | SpaceParity

datatype stop_bits = OneStopBit | OnePointFiveStopBits | TwoStopBits

record Mode =
  mode_BaudRate :: int
  mode_DataBits :: int
  mode_Parity :: parity
  mode_StopBits :: stop_bits

definition serial_mode :: "Session \<Rightarrow> Mode" where
  "serial_mode s =
     (let d = Serial_Defaults (sess_cfg s) in
      \<lparr>mode_BaudRate = sess_baudrate s, mode_DataBits = sd_ByteSize d,
       mode_Parity =
         (if sd_Parity d = ''E'' then EvenParity
          else if sd_Parity d = ''O'' then OddParity
          else if sd_Parity d = ''M'' then MarkParity
          else if sd_Parity d = ''S'' then SpaceParity
          else NoParity),
       mode_StopBits =
         (if sd_StopBits d = 3 / 2 then OnePointFiveStopBits
          else if sd_StopBits d = 2 then TwoStopBits
          else OneStopBit)\<rparr>)"

definition spawn :: "goroutine \<Rightarrow> Session \<Rightarrow> Session" where
  "spawn g s = s\<lparr>goroutines := (goroutines s)(next_go s \<mapsto> g), next_go := Suc (next_go s)\<rparr>"

text \<open>
  \<open>Open\<close>; \<open>dev\<close> is what \<open>serial.Open\<close> of the driver library answers for a device and a mode. The result
  is the error, if any.
\<close>

definition Open :: "(string \<Rightarrow> Mode \<Rightarrow> error option) \<Rightarrow> Session \<Rightarrow> Session \<times> error option" where
  "Open dev s =
     (if connected s then (s, None)
      else (case dev (sess_device s) (serial_mode s) of
          Some e \<Rightarrow> (s, Some (''open '' @ sess_device s @ '': '' @ e))
        | None \<Rightarrow>
            (spawn WriteStart (spawn ReadStart
              (s\<lparr>port := Some (next_port s), connected := True,
                 open_ports := next_port s # open_ports s, next_port := Suc (next_port s)\<rparr>)), None)))"

text \<open>The part of \<open>Close\<close> under the lock, and the part after it.\<close>

definition close_port :: "Session \<Rightarrow> Session" where
  "close_port s =
     (case port s of
        None \<Rightarrow> s\<lparr>connected := False\<rparr>
      | Some p \<Rightarrow> s\<lparr>open_ports := removeAll p (open_ports s), port := None, connected := False\<rparr>)"

definition close_stop :: "Session \<Rightarrow> Session" where
  "close_stop s =
     (if stopCh s \<in> set (closed_stops s) then s
      else s\<lparr>closed_stops := stopCh s # closed_stops s\<rparr>)"

definition Close :: "Session \<Rightarrow> Session" where
  "Close s = close_stop (close_port s)"

section \<open>Subscribers\<close>

definition Subscribe :: "Session \<Rightarrow> Session \<times> nat" where
  "Subscribe s =
     (s\<lparr>channels := (channels s)(next_chan s := make_chan 64),
        subscribers := next_chan s # subscribers s, next_chan := Suc (next_chan s)\<rparr>, next_chan s)"

definition Unsubscribe :: "nat \<Rightarrow> Session \<Rightarrow> Session outcome" where
  "Unsubscribe ch s =
     then_do (close_chan (channels s ch))
       (\<lambda>c. Ret (s\<lparr>subscribers := removeAll ch (subscribers s), channels := (channels s)(ch := c)\<rparr>))"

text \<open>\<open>broadcast\<close>: a send with a default branch to every subscriber's channel.\<close>

fun send_to :: "nat list \<Rightarrow> string \<Rightarrow> (nat \<Rightarrow> string chan) \<Rightarrow> (nat \<Rightarrow> string chan) outcome" where
  "send_to [] msg chans = Ret chans"
| "send_to (ch # chs) msg chans =
     then_do (try_send msg (chans ch)) (\<lambda>(c, _). send_to chs msg (chans(ch := c)))"

definition broadcast :: "string \<Rightarrow> Session \<Rightarrow> Session outcome" where
  "broadcast msg s =
     then_do (send_to (subscribers s) msg (channels s)) (\<lambda>chans. Ret (s\<lparr>channels := chans\<rparr>))"

definition disconnected_msg :: string where
  "disconnected_msg = ''[serial disconnected - waiting for reconnect...]'' @ [newline]"

definition reconnected_msg :: string where
  "reconnected_msg = ''[serial reconnected]'' @ [newline]"

section \<open>handleDisconnect\<close>

definition handleDisconnect :: "Session \<Rightarrow> Session" where
  "handleDisconnect s =
     (case port s of
        None \<Rightarrow> s
      | Some p \<Rightarrow>
          (let s1 = s\<lparr>open_ports := removeAll p (open_ports s), port := None, connected := False\<rparr>;
               s2 = close_stop s1
           in spawn ReconStart (s2\<lparr>stopCh := next_stop s2, next_stop := Suc (next_stop s2)\<rparr>)))"

section \<open>The queue of write requests\<close>

text \<open>\<open>sess.WriteChannel() <- req\<close> with a fresh \<open>Done\<close> channel; \<open>None\<close> while it blocks.\<close>

definition submit :: "bytes \<Rightarrow> Session \<Rightarrow> Session option" where
  "submit data s =
     (case send \<lparr>Data = data, Done = next_req s\<rparr> (sess_writeCh s) of
        Some (Ret ch) \<Rightarrow> Some (s\<lparr>sess_writeCh := ch, next_req := Suc (next_req s)\<rparr>)
      | _ \<Rightarrow> None)"

section \<open>Lemmas\<close>

lemma override_baudrate_last:
  "override_baudrate d ps b =
     (case rev (filter (\<lambda>p. pc_Device p = d \<and> pc_Baudrate p \<noteq> 0) ps) of
        [] \<Rightarrow> b | p # _ \<Rightarrow> pc_Baudrate p)"
  by (induction ps arbitrary: b) (auto split: list.splits simp: append_eq_Cons_conv)

lemma send_to_open:
  assumes "distinct chs" and "\<forall>ch \<in> set chs. \<not> closed (chans ch)"
  shows "send_to chs msg chans =
    Ret (\<lambda>ch. if ch \<in> set chs then fst (offer msg (chans ch)) else chans ch)"
  using assms
proof (induction chs arbitrary: chans)
  case Nil
  then show ?case by simp
next
  case (Cons c cs)
  have "\<forall>ch \<in> set cs. \<not> closed ((chans(c := fst (offer msg (chans c)))) ch)"
    using Cons.prems by auto
  then have "send_to cs msg (chans(c := fst (offer msg (chans c)))) =
      Ret (\<lambda>ch. if ch \<in> set cs then fst (offer msg ((chans(c := fst (offer msg (chans c)))) ch))
                else (chans(c := fst (offer msg (chans c)))) ch)"
    using Cons by simp
  then show ?case
    using Cons.prems by (auto simp: try_send_open case_prod_beta fun_eq_iff)
qed

lemma broadcast_open:
  assumes "distinct (subscribers s)" and "\<forall>ch \<in> set (subscribers s). \<not> closed (channels s ch)"
  shows "broadcast msg s = Ret (s\<lparr>channels := \<lambda>ch.
    if ch \<in> set (subscribers s) then fst (offer msg (channels s ch)) else channels s ch\<rparr>)"
  by (simp add: broadcast_def send_to_open [OF assms])

end
