(* ===== verification/SessionMachine.thy ===== *)
theory SessionMachine
  imports Session
begin

text \<open>
  The goroutines of a serial session (\<open>readLoop\<close>, \<open>writeLoop\<close>, \<open>reconnectLoop\<close> of
  \<open>internal/serial/session.go\<close>) and their callers, interleaved in every order the scheduler allows. One
  step runs a goroutine up to its next operation on shared state (a lock region, a channel
  operation, a call of the driver). \<open>gstep\<close> is that step as a function, \<open>None\<close> when the goroutine is
  blocked; \<open>session_step\<close> is the step relation with the callers of the session, labelled so that
  runs without a call of \<open>Close\<close> can be told apart.
\<close>

section \<open>One goroutine step\<close>

text \<open>
  What the environment answers in a step: the driver's result of a read, a write or an open,
  or the branch \<open>select\<close> takes when the stop channel is closed and a request waits.
\<close>

datatype choice =
    Plain
  | TakeStop
  | ReadData bytes
  | ReadErr' error
  | WriteDone "error option"
  | OpenDone "error option"

definition move_to :: "nat \<Rightarrow> goroutine \<Rightarrow> Session \<Rightarrow> Session" where
  "move_to g q s = s\<lparr>goroutines := (goroutines s)(g \<mapsto> q)\<rparr>"

definition exit_go :: "nat \<Rightarrow> Session \<Rightarrow> Session" where
  "exit_go g s = s\<lparr>goroutines := (goroutines s)(g := None)\<rparr>"

text \<open>The steps of \<open>readLoop\<close>; \<open>now\<close> is the clock, read when a line is stamped.\<close>

fun read_step :: "int \<Rightarrow> choice \<Rightarrow> nat \<Rightarrow> goroutine \<Rightarrow> Session \<Rightarrow> Session outcome option" where
  "read_step now c g ReadStart s = Some (Ret (move_to g (ReadTop (stopCh s) []) s))"
| "read_step now c g (ReadTop st lb) s =
     Some (Ret (if st \<in> set (closed_stops s) then exit_go g s else move_to g (ReadPort st lb) s))"
| "read_step now c g (ReadPort st lb) s =
     Some (Ret (case port s of
         None \<Rightarrow> move_to g (ReadTop st lb) s
       | Some p \<Rightarrow> move_to g (ReadBlocked st lb p) s))"
| "read_step now c g (ReadBlocked st lb p) s =
     (case c of
        ReadErr' e \<Rightarrow> Some (Ret (move_to g ReadFailed s))
      | ReadData d \<Rightarrow>
          (if p \<in> set (open_ports s) \<and> length d \<le> 1024
           then Some (Ret (move_to g (if d = [] then ReadTop st lb else ReadBroadcast st lb d) s))
           else None)
      | _ \<Rightarrow> None)"
| "read_step now c g ReadFailed s =
     Some (then_do (broadcast disconnected_msg s) (\<lambda>s'. Ret (move_to g ReadDisconnect s')))"
| "read_step now c g ReadDisconnect s = Some (Ret (exit_go g (handleDisconnect s)))"
| "read_step now c g (ReadBroadcast st lb d) s =
     Some (then_do (broadcast d s) (\<lambda>s'. Ret (move_to g (ReadRecord st lb d) s')))"
| "read_step now c g (ReadRecord st lb d) s =
     Some (Ret (move_to g (ReadLines st (lb @ d))
       (case sess_recorder s of
          None \<Rightarrow> s
        | Some r \<Rightarrow> s\<lparr>recorded := recorded s @ [(r, d)]\<rparr>)))"
| "read_step now c g (ReadLines st lb) s =
     (case index_byte lb newline of
        None \<Rightarrow> Some (Ret (move_to g (ReadTop st lb) s))
      | Some idx \<Rightarrow>
          (let line = clean_line (take idx lb); seq = seq_counter s + 1 in
           Some (Ret (move_to g
             (ReadAppend st (drop (Suc idx) lb)
                \<lparr>TS = now, Seq = seq, Line = line, Bytes = int (length line)\<rparr>)
             (s\<lparr>seq_counter := seq\<rparr>)))))"
| "read_step now c g (ReadAppend st lb e) s =
     Some (then_do (Append (ringBuffer s) e)
       (\<lambda>rb. Ret (move_to g (ReadLines st lb) (s\<lparr>ringBuffer := rb\<rparr>))))"
| "read_step now c g _ s = None"

text \<open>The steps of \<open>writeLoop\<close>. The reply goes to a \<open>Done\<close> channel of capacity one.\<close>

definition discarded_msg :: error where
  "discarded_msg = ''serial disconnected, input discarded''"

fun write_step :: "choice \<Rightarrow> nat \<Rightarrow> goroutine \<Rightarrow> Session \<Rightarrow> Session option" where
  "write_step c g WriteStart s = Some (move_to g (WriteTop (stopCh s)) s)"
| "write_step c g (WriteTop st) s =
     (if c = TakeStop then (if st \<in> set (closed_stops s) then Some (exit_go g s) else None)
      else (case recv (sess_writeCh s) of
          None \<Rightarrow> None
        | Some (req, ch) \<Rightarrow> Some (move_to g (WriteGot st req) (s\<lparr>sess_writeCh := ch\<rparr>))))"
| "write_step c g (WriteGot st req) s =
     Some (case port s of
         Some p \<Rightarrow> move_to g (WritePort st req p) s
       | None \<Rightarrow>
           (if DiscardInputOnDisconnect (Reconnect (sess_cfg s))
            then move_to g (WriteTop st) (s\<lparr>replies := (Done req, Some discarded_msg) # replies s\<rparr>)
            else move_to g (WriteTop st) (s\<lparr>lost := Done req # lost s\<rparr>)))"
| "write_step c g (WritePort st req p) s =
     (case c of
        WriteDone None \<Rightarrow>
          (if p \<in> set (open_ports s)
           then Some (move_to g (WriteTop st)
             (s\<lparr>wire := wire s @ [(p, Data req)], replies := (Done req, None) # replies s\<rparr>))
           else None)
      | WriteDone (Some e) \<Rightarrow>
          Some (move_to g (WriteTop st) (s\<lparr>replies := (Done req, Some e) # replies s\<rparr>))
      | _ \<Rightarrow> None)"
| "write_step c g _ s = None"

text \<open>
  The steps of \<open>reconnectLoop\<close>. The sleep before each attempt is the time between the step that
  checks the stop channel and the step that opens the port.
\<close>

fun recon_step :: "choice \<Rightarrow> nat \<Rightarrow> goroutine \<Rightarrow> Session \<Rightarrow> Session outcome option" where
  "recon_step c g ReconStart s = Some (Ret (move_to g (ReconTop (stopCh s)) s))"
| "recon_step c g (ReconTop st) s =
     Some (Ret (if st \<in> set (closed_stops s) then exit_go g s else move_to g (ReconOpen st) s))"
| "recon_step c g (ReconOpen st) s =
     (case c of
        OpenDone r \<Rightarrow>
          (let (s', err) = Open (\<lambda>_ _. r) s in
           Some (Ret (if err = None then move_to g ReconBroadcast s' else move_to g (ReconTop st) s')))
      | _ \<Rightarrow> None)"
| "recon_step c g ReconBroadcast s =
     Some (then_do (broadcast reconnected_msg s) (\<lambda>s'. Ret (exit_go g s')))"
| "recon_step c g _ s = None"

definition gstep :: "int \<Rightarrow> choice \<Rightarrow> nat \<Rightarrow> Session \<Rightarrow> Session outcome option" where
  "gstep now c g s =
     (case goroutines s g of
        None \<Rightarrow> None
      | Some q \<Rightarrow>
          (case read_step now c g q s of
             Some r \<Rightarrow> Some r
           | None \<Rightarrow>
          (case recon_step c g q s of
             Some r \<Rightarrow> Some r
           | None \<Rightarrow>
          (case write_step c g q s of
             Some t \<Rightarrow> Some (Ret t)
           | None \<Rightarrow> if q = CloseTail then Some (Ret (exit_go g (close_stop s))) else None))))"

section \<open>The step relation\<close>

datatype label = Internal | CallOpen | CallClose | CallOther

inductive session_step :: "label \<Rightarrow> Session \<Rightarrow> Session \<Rightarrow> bool" where
  go: "gstep now c g s = Some (Ret t) \<Longrightarrow> session_step Internal s t"
| call_open: "session_step CallOpen s (fst (Open dev s))"
| call_close: "session_step CallClose s (spawn CloseTail (close_port s))"
| call_subscribe: "session_step CallOther s (fst (Subscribe s))"
| call_unsubscribe: "ch \<in> set (subscribers s) \<Longrightarrow> Unsubscribe ch s = Ret t \<Longrightarrow> session_step CallOther s t"
| call_receive: "recv (channels s ch) = Some (m, c) \<Longrightarrow>
    session_step CallOther s (s\<lparr>channels := (channels s)(ch := c)\<rparr>)"
| call_submit: "submit data s = Some t \<Longrightarrow> session_step CallOther s t"
| call_set_recorder: "session_step CallOther s (SetRecorder r s)"

text \<open>Reachability by steps whose label is allowed.\<close>

inductive session_reach :: "(label \<Rightarrow> bool) \<Rightarrow> Session \<Rightarrow> Session \<Rightarrow> bool" for ok s0 where
  refl: "session_reach ok s0 s0"
| extend: "session_reach ok s0 s \<Longrightarrow> session_step l s t \<Longrightarrow> ok l \<Longrightarrow> session_reach ok s0 t"

definition any_label :: "label \<Rightarrow> bool" where
  "any_label l \<longleftrightarrow> True"

definition no_close :: "label \<Rightarrow> bool" where
  "no_close l \<longleftrightarrow> l \<noteq> CallClose"

inductive_cases session_stepE: "session_step l s t"

section \<open>Frame lemmas\<close>

lemmas go_defs = move_to_def exit_go_def spawn_def

lemma broadcast_frame:
  assumes "broadcast m s = Ret t"
  shows "\<exists>chans. t = s\<lparr>channels := chans\<rparr>"
  using assms by (auto simp: broadcast_def then_do_eq_Ret)

section \<open>The invariant every interleaving keeps\<close>

definition ports_ok :: "Session \<Rightarrow> bool" where
  "ports_ok s \<longleftrightarrow> connected s = (port s \<noteq> None) \<and>
     open_ports s = (case port s of None \<Rightarrow> [] | Some p \<Rightarrow> [p])"

definition chans_ok :: "Session \<Rightarrow> bool" where
  "chans_ok s \<longleftrightarrow> distinct (subscribers s) \<and>
     (\<forall>ch \<in> set (subscribers s). \<not> closed (channels s ch) \<and> ch < next_chan s) \<and>
     (\<forall>ch. length (buf (channels s ch)) \<le> 64 \<and> cap (channels s ch) = 64)"

definition queue_ok :: "Session \<Rightarrow> bool" where
  "queue_ok s \<longleftrightarrow> \<not> closed (sess_writeCh s) \<and> cap (sess_writeCh s) = 64 \<and>
     length (buf (sess_writeCh s)) \<le> 64"

text \<open>An entry about to be appended has a length that is not negative.\<close>

fun stamped :: "goroutine \<Rightarrow> bool" where
  "stamped (ReadAppend st lb e) = sized e"
| "stamped _ = True"

definition ring_ok :: "Session \<Rightarrow> bool" where
  "ring_ok s \<longleftrightarrow> rb_ok (maxLines (ringBuffer s)) (maxBytes (ringBuffer s)) (ringBuffer s) \<and>
     (\<forall>g q. goroutines s g = Some q \<longrightarrow> stamped q)"

definition gos_ok :: "Session \<Rightarrow> bool" where
  "gos_ok s \<longleftrightarrow> (\<forall>g. next_go s \<le> g \<longrightarrow> goroutines s g = None)"

definition session_inv :: "Session \<Rightarrow> bool" where
  "session_inv s \<longleftrightarrow> ports_ok s \<and> chans_ok s \<and> queue_ok s \<and> ring_ok s \<and> gos_ok s"

lemmas inv_defs = session_inv_def ports_ok_def chans_ok_def queue_ok_def ring_ok_def gos_ok_def

lemma NewSerialSession_inv:
  assumes "NewSerialSession d cfg = Ret s" and "0 \<le> rbc_MaxBytes (Ring_Buffer cfg)"
  shows "session_inv s"
  using assms
  by (auto simp: NewSerialSession_def then_do_eq_Ret NewRingBuffer_def inv_defs rb_ok_def fits_def
      split: if_splits)

lemma inv_broadcast:
  assumes "session_inv s"
  shows "\<exists>t. broadcast m s = Ret t \<and> session_inv t \<and> (\<exists>chans. t = s\<lparr>channels := chans\<rparr>)"
proof -
  have "chans_ok s" using assms by (simp add: session_inv_def)
  then have "broadcast m s = Ret (s\<lparr>channels := \<lambda>ch.
      if ch \<in> set (subscribers s) then fst (offer m (channels s ch)) else channels s ch\<rparr>)"
    by (intro broadcast_open) (auto simp: chans_ok_def)
  moreover have "length (buf (fst (offer m (channels s ch)))) \<le> 64" for ch
    using \<open>chans_ok s\<close> offer_bound [of "channels s ch" m] by (simp add: chans_ok_def)
  ultimately show ?thesis using assms by (auto simp: inv_defs)
qed

lemma inv_move [simp]:
  assumes "session_inv s" and "g < next_go s" and "stamped q"
  shows "session_inv (move_to g q s)"
  using assms by (auto simp: inv_defs move_to_def)

lemma inv_exit [simp]: "session_inv s \<Longrightarrow> session_inv (exit_go g s)"
  by (auto simp: inv_defs exit_go_def)

lemma inv_spawn [simp]:
  "session_inv s \<Longrightarrow> stamped q \<Longrightarrow> session_inv (spawn q s)"
  by (auto simp: inv_defs spawn_def)

lemma inv_close_port [simp]: "session_inv s \<Longrightarrow> session_inv (close_port s)"
  by (auto simp: inv_defs close_port_def split: option.splits)

lemma inv_close_stop [simp]: "session_inv s \<Longrightarrow> session_inv (close_stop s)"
  by (auto simp: inv_defs close_stop_def)

lemma inv_stop_fields [simp]:
  "session_inv (s\<lparr>stopCh := a, next_stop := b\<rparr>) = session_inv s"
  by (simp add: inv_defs)

lemma handleDisconnect_eq:
  "handleDisconnect s = (if port s = None then s
     else (let s2 = close_stop (close_port s) in
           spawn ReconStart (s2\<lparr>stopCh := next_stop s2, next_stop := Suc (next_stop s2)\<rparr>)))"
  by (auto simp: handleDisconnect_def close_port_def Let_def split: option.splits)

lemma inv_handleDisconnect [simp]: "session_inv s \<Longrightarrow> session_inv (handleDisconnect s)"
  by (simp add: handleDisconnect_eq Let_def)

lemma inv_Open: "session_inv s \<Longrightarrow> session_inv (fst (Open dev s))"
proof -
  assume s: "session_inv s"
  have "session_inv (s\<lparr>port := Some p, connected := True, open_ports := p # open_ports s, next_port := n\<rparr>)"
    if "\<not> connected s" for p n
    using s that by (auto simp: inv_defs split: option.splits)
  then show ?thesis using s by (auto simp: Open_def split: option.splits)
qed

lemma next_go_frame [simp]:
  "next_go (close_port s) = next_go s" "next_go (close_stop s) = next_go s"
  "next_go (move_to g q s) = next_go s" "next_go (exit_go g s) = next_go s"
  by (auto simp: close_port_def close_stop_def go_defs split: option.splits)

lemma next_go_Open: "next_go s \<le> next_go (fst (Open dev s))"
  by (auto simp: Open_def spawn_def split: option.splits)

lemma live_below: "session_inv s \<Longrightarrow> goroutines s g = Some q \<Longrightarrow> g < next_go s"
  by (fastforce simp: inv_defs not_le)

lemma inv_set_ring:
  assumes "session_inv s" and "sized e"
  shows "\<exists>rb. Append (ringBuffer s) e = Ret rb \<and> session_inv (s\<lparr>ringBuffer := rb\<rparr>)"
proof -
  have "rb_ok (maxLines (ringBuffer s)) (maxBytes (ringBuffer s)) (ringBuffer s)"
    using assms by (simp add: inv_defs)
  then obtain rb where "Append (ringBuffer s) e = Ret rb"
      "rb_ok (maxLines (ringBuffer s)) (maxBytes (ringBuffer s)) rb"
    using rb.app_ok assms(2) by blast
  moreover from this have "rb_ok (maxLines rb) (maxBytes rb) rb" by (simp add: rb_ok_def)
  ultimately show ?thesis using assms(1) by (auto simp: inv_defs)
qed

lemma inv_small_fields [simp]:
  "session_inv (s\<lparr>sess_recorder := a\<rparr>) = session_inv s"
  "session_inv (s\<lparr>recorded := m\<rparr>) = session_inv s"
  "session_inv (s\<lparr>seq_counter := b\<rparr>) = session_inv s"
  "session_inv (s\<lparr>replies := c\<rparr>) = session_inv s"
  "session_inv (s\<lparr>lost := l\<rparr>) = session_inv s"
  "session_inv (s\<lparr>wire := w\<rparr>) = session_inv s"
  by (simp_all add: inv_defs)

lemma inv_read_step:
  assumes s: "session_inv s" and g: "goroutines s g = Some q" and r: "read_step now c g q s = Some r"
  shows "\<exists>t. r = Ret t \<and> session_inv t"
proof (cases q)
  case (ReadBroadcast st lb d)
  then show ?thesis using inv_broadcast [OF s, of d] live_below [OF s g] r by auto
next
  case ReadFailed
  then show ?thesis using inv_broadcast [OF s, of disconnected_msg] live_below [OF s g] r by auto
next
  case (ReadAppend st lb e)
  then have "sized e" using s g by (fastforce simp: inv_defs)
  then show ?thesis using ReadAppend inv_set_ring [OF s, of e] live_below [OF s g] r by auto
qed (use r s live_below [OF s g] in
  \<open>auto simp: Let_def sized_def split: choice.splits if_splits option.splits\<close>)

lemma inv_recon_step:
  assumes s: "session_inv s" and g: "goroutines s g = Some q" and r: "recon_step c g q s = Some r"
  shows "\<exists>t. r = Ret t \<and> session_inv t"
proof (cases q)
  case ReconBroadcast
  then show ?thesis using inv_broadcast [OF s, of reconnected_msg] r by auto
next
  case (ReconOpen st)
  then obtain o' where "r = (let (s', err) = Open (\<lambda>_ _. o') s in
      Ret (if err = None then move_to g ReconBroadcast s' else move_to g (ReconTop st) s'))"
    using r by (auto simp: Let_def case_prod_beta split: choice.splits)
  moreover have "g < next_go (fst (Open (\<lambda>_ _. o') s))"
    using live_below [OF s g] next_go_Open [of s "\<lambda>_ _. o'"] by simp
  ultimately show ?thesis using inv_Open [OF s, of "\<lambda>_ _. o'"] by (auto simp: case_prod_beta)
qed (use r s live_below [OF s g] in auto)

lemma inv_queue:
  "session_inv s \<Longrightarrow> recv (sess_writeCh s) = Some (x, ch) \<Longrightarrow> session_inv (s\<lparr>sess_writeCh := ch\<rparr>)"
  using recv_frame [of "sess_writeCh s" x ch] by (auto simp: inv_defs)

lemma inv_write_step:
  assumes s: "session_inv s" and g: "goroutines s g = Some q" and r: "write_step c g q s = Some t"
  shows "session_inv t"
  using r s live_below [OF s g] inv_queue [OF s]
  by (cases q) (auto split: choice.splits if_splits option.splits)

lemma inv_gstep:
  assumes s: "session_inv s" and r: "gstep now c g s = Some r"
  shows "\<exists>t. r = Ret t \<and> session_inv t"
  using r inv_read_step [OF s, of g] inv_recon_step [OF s, of g] inv_write_step [OF s, of g] s
  by (auto simp: gstep_def split: option.splits if_splits)

lemma inv_submit: "session_inv s \<Longrightarrow> submit d s = Some t \<Longrightarrow> session_inv t"
  by (auto simp: submit_def send_def has_room_def inv_defs split: if_splits)

lemma inv_Subscribe: "session_inv s \<Longrightarrow> session_inv (fst (Subscribe s))"
  by (auto simp: inv_defs Subscribe_def less_Suc_eq)

lemma inv_Unsubscribe: "session_inv s \<Longrightarrow> Unsubscribe ch s = Ret t \<Longrightarrow> session_inv t"
  by (auto simp: Unsubscribe_def close_chan_def inv_defs then_do_eq_Ret split: if_splits
      dest: distinct_removeAll)

lemma inv_receive:
  "session_inv s \<Longrightarrow> recv (channels s ch) = Some (m, c) \<Longrightarrow>
   session_inv (s\<lparr>channels := (channels s)(ch := c)\<rparr>)"
  using recv_frame [of "channels s ch" m c] by (auto simp: inv_defs dest: spec [of _ ch])

lemma inv_step: "session_step l s t \<Longrightarrow> session_inv s \<Longrightarrow> session_inv t"
  by (induction rule: session_step.induct)
    (auto simp: SetRecorder_def dest: inv_gstep
      intro: inv_Open inv_Subscribe inv_Unsubscribe inv_receive inv_submit)

lemma inv_reach: "session_reach ok s0 s \<Longrightarrow> session_inv s0 \<Longrightarrow> session_inv s"
  by (induction rule: session_reach.induct) (auto dest: inv_step)

end
