(* ===== verification/SessionRuns.thy ===== *)
theory SessionRuns
  imports SessionMachine "HOL-Library.Multiset"
begin

text \<open>
  What holds in every interleaving of \<open>SessionMachine\<close>: one open port handle at most, no panic,
  every write request answered at most once; and, while nobody calls \<open>Close\<close>, one reader and
  consecutive sequence numbers, with a reconnect loop running whenever the port is down. The last
  section holds runs, as command lists, in which \<open>Close\<close> races with a reconnect.
\<close>

section \<open>Runs as command lists\<close>

datatype command =
    Go int choice nat
  | DoOpen "error option"
  | DoClose
  | DoSubmit bytes
  | DoSubscribe

fun exec_cmd :: "command \<Rightarrow> Session \<Rightarrow> Session option" where
  "exec_cmd (Go now c g) s = (case gstep now c g s of Some (Ret t) \<Rightarrow> Some t | _ \<Rightarrow> None)"
| "exec_cmd (DoOpen r) s = Some (fst (Open (\<lambda>_ _. r) s))"
| "exec_cmd DoClose s = Some (spawn CloseTail (close_port s))"
| "exec_cmd (DoSubmit d) s = submit d s"
| "exec_cmd DoSubscribe s = Some (fst (Subscribe s))"

fun exec_cmds :: "command list \<Rightarrow> Session \<Rightarrow> Session option" where
  "exec_cmds [] s = Some s"
| "exec_cmds (c # cs) s = (case exec_cmd c s of None \<Rightarrow> None | Some t \<Rightarrow> exec_cmds cs t)"

fun label_of :: "command \<Rightarrow> label" where
  "label_of (Go now c g) = Internal"
| "label_of (DoOpen r) = CallOpen"
| "label_of DoClose = CallClose"
| "label_of (DoSubmit d) = CallOther"
| "label_of DoSubscribe = CallOther"

lemma exec_cmd_step: "exec_cmd c s = Some t \<Longrightarrow> session_step (label_of c) s t"
  by (cases c) (auto split: option.splits outcome.splits intro: session_step.intros)

lemma reach_trans:
  assumes "session_reach ok s t" and "session_reach ok r s"
  shows "session_reach ok r t"
  using assms by (induction rule: session_reach.induct) (auto intro: session_reach.intros)

lemma exec_cmds_reach:
  "exec_cmds cs s = Some t \<Longrightarrow> list_all (\<lambda>c. ok (label_of c)) cs \<Longrightarrow> session_reach ok s t"
proof (induction cs arbitrary: s)
  case Nil
  then show ?case by (simp add: session_reach.refl)
next
  case (Cons c cs)
  then obtain u where u: "exec_cmd c s = Some u" "exec_cmds cs u = Some t"
    by (auto split: option.splits)
  then have "session_reach ok s u"
    using Cons.prems session_reach.extend [OF session_reach.refl exec_cmd_step] by fastforce
  then show ?case using Cons u reach_trans by fastforce
qed

lemma exec_cmds_append:
  "exec_cmds (cs @ ds) s = (case exec_cmds cs s of None \<Rightarrow> None | Some t \<Rightarrow> exec_cmds ds t)"
  by (induction cs arbitrary: s) (auto split: option.splits)

text \<open>Steps of goroutines only: nobody calls into the session any more.\<close>

definition internal_only :: "label \<Rightarrow> bool" where
  "internal_only l \<longleftrightarrow> l = Internal"

section \<open>Accounting of write requests\<close>

text \<open>The requests a goroutine holds between taking them from the queue and replying.\<close>

fun held :: "goroutine option \<Rightarrow> nat multiset" where
  "held (Some (WriteGot st r)) = {#Done r#}"
| "held (Some (WritePort st r p)) = {#Done r#}"
| "held _ = {#}"

definition in_flight :: "Session \<Rightarrow> nat multiset" where
  "in_flight s = (\<Sum>g < next_go s. held (goroutines s g))"

definition waiting :: "Session \<Rightarrow> nat multiset" where
  "waiting s = mset (map Done (buf (sess_writeCh s)))"

definition answered :: "Session \<Rightarrow> nat multiset" where
  "answered s = mset (map fst (replies s))"

definition accounted :: "Session \<Rightarrow> bool" where
  "accounted s \<longleftrightarrow>
     waiting s + in_flight s + answered s + mset (lost s) = mset [0..<next_req s] \<and>
     length (wire s) = length (filter (\<lambda>r. snd r = None) (replies s)) \<and>
     (DiscardInputOnDisconnect (Reconnect (sess_cfg s)) \<longrightarrow> lost s = [])"

declare mset_upt [simp del]

lemma in_flight_upd:
  assumes "g < next_go s"
  shows "in_flight (s\<lparr>goroutines := (goroutines s)(g := q)\<rparr>) + held (goroutines s g) =
    in_flight s + held q"
proof -
  have "in_flight (s\<lparr>goroutines := (goroutines s)(g := q)\<rparr>) =
      held q + (\<Sum>i \<in> {..<next_go s} - {g}. held (goroutines s i))"
    using assms by (simp add: in_flight_def sum.remove [of _ g])
  moreover have "in_flight s = held (goroutines s g) + (\<Sum>i \<in> {..<next_go s} - {g}. held (goroutines s i))"
    using assms by (simp add: in_flight_def sum.remove [of _ g])
  ultimately show ?thesis by simp
qed

lemma in_flight_move:
  "g < next_go s \<Longrightarrow> goroutines s g = Some p \<Longrightarrow> held (Some p) = {#} \<Longrightarrow>
   in_flight (move_to g q s) = in_flight s + held (Some q)"
  "g < next_go s \<Longrightarrow> goroutines s g = Some p \<Longrightarrow>
   in_flight (move_to g q s) + held (Some p) = in_flight s + held (Some q)"
  "g < next_go s \<Longrightarrow> goroutines s g = Some p \<Longrightarrow> held (Some p) = {#} \<Longrightarrow>
   in_flight (exit_go g s) = in_flight s"
  using in_flight_upd [of g s "Some q"] in_flight_upd [of g s None]
  by (simp_all add: move_to_def exit_go_def)

lemma in_flight_spawn: "in_flight (spawn q s) = in_flight s + held (Some q)"
proof -
  have "(\<Sum>g < next_go s. held (((goroutines s)(next_go s \<mapsto> q)) g)) = (\<Sum>g < next_go s. held (goroutines s g))"
    by (rule sum.cong) auto
  then show ?thesis by (simp add: in_flight_def spawn_def)
qed

text \<open>Steps that touch no request.\<close>

definition same_books :: "Session \<Rightarrow> Session \<Rightarrow> bool" where
  "same_books s t \<longleftrightarrow> sess_writeCh t = sess_writeCh s \<and> replies t = replies s \<and> lost t = lost s \<and>
     next_req t = next_req s \<and> wire t = wire s \<and> sess_cfg t = sess_cfg s \<and> in_flight t = in_flight s"

lemma same_books_accounted: "same_books s t \<Longrightarrow> accounted s \<Longrightarrow> accounted t"
  by (simp add: same_books_def accounted_def waiting_def answered_def)

lemma in_flight_cong [simp]:
  "in_flight (s\<lparr>channels := a\<rparr>) = in_flight s"
  "in_flight (s\<lparr>ringBuffer := b\<rparr>) = in_flight s"
  "in_flight (s\<lparr>sess_recorder := c\<rparr>) = in_flight s"
  "in_flight (s\<lparr>recorded := x\<rparr>) = in_flight s"
  "in_flight (s\<lparr>seq_counter := d\<rparr>) = in_flight s"
  "in_flight (s\<lparr>sess_writeCh := e\<rparr>) = in_flight s"
  "in_flight (s\<lparr>replies := f\<rparr>) = in_flight s"
  "in_flight (s\<lparr>lost := h\<rparr>) = in_flight s"
  "in_flight (s\<lparr>wire := i\<rparr>) = in_flight s"
  "in_flight (s\<lparr>next_req := j\<rparr>) = in_flight s"
  "in_flight (s\<lparr>subscribers := k\<rparr>) = in_flight s"
  "in_flight (s\<lparr>next_chan := l\<rparr>) = in_flight s"
  "in_flight (s\<lparr>next_port := m\<rparr>) = in_flight s"
  "in_flight (s\<lparr>open_ports := p\<rparr>) = in_flight s"
  "in_flight (s\<lparr>connected := q\<rparr>) = in_flight s"
  "in_flight (s\<lparr>port := r\<rparr>) = in_flight s"
  "in_flight (s\<lparr>closed_stops := u\<rparr>) = in_flight s"
  "in_flight (s\<lparr>stopCh := v\<rparr>) = in_flight s"
  "in_flight (s\<lparr>next_stop := w\<rparr>) = in_flight s"
  by (simp_all add: in_flight_def)

lemma same_books_refl [simp]: "same_books s s"
  by (simp add: same_books_def)

lemma same_books_trans: "same_books s t \<Longrightarrow> same_books t u \<Longrightarrow> same_books s u"
  by (simp add: same_books_def)

lemma same_books_move:
  "g < next_go s \<Longrightarrow> goroutines s g = Some p \<Longrightarrow> held (Some p) = {#} \<Longrightarrow> held (Some q) = {#} \<Longrightarrow>
   same_books s (move_to g q s)"
  "g < next_go s \<Longrightarrow> goroutines s g = Some p \<Longrightarrow> held (Some p) = {#} \<Longrightarrow> same_books s (exit_go g s)"
  using in_flight_move(1) [of g s p q] in_flight_move(3) [of g s p]
  by (simp_all add: same_books_def) (simp_all add: move_to_def exit_go_def)

lemma same_books_spawn: "held (Some q) = {#} \<Longrightarrow> same_books s (spawn q s)"
  using in_flight_spawn [of q s] by (simp add: same_books_def) (simp add: spawn_def)

lemma same_books_fields [simp]:
  "same_books s (t\<lparr>channels := a\<rparr>) = same_books s t"
  "same_books s (t\<lparr>ringBuffer := b\<rparr>) = same_books s t"
  "same_books s (t\<lparr>sess_recorder := c\<rparr>) = same_books s t"
  "same_books s (t\<lparr>recorded := x\<rparr>) = same_books s t"
  "same_books s (t\<lparr>seq_counter := d\<rparr>) = same_books s t"
  "same_books s (t\<lparr>subscribers := k\<rparr>) = same_books s t"
  "same_books s (t\<lparr>next_chan := l\<rparr>) = same_books s t"
  "same_books s (t\<lparr>next_port := m\<rparr>) = same_books s t"
  "same_books s (t\<lparr>open_ports := p\<rparr>) = same_books s t"
  "same_books s (t\<lparr>connected := q\<rparr>) = same_books s t"
  "same_books s (t\<lparr>port := r\<rparr>) = same_books s t"
  "same_books s (t\<lparr>closed_stops := u\<rparr>) = same_books s t"
  "same_books s (t\<lparr>stopCh := v\<rparr>) = same_books s t"
  "same_books s (t\<lparr>next_stop := w\<rparr>) = same_books s t"
  by (simp_all add: same_books_def)

lemma same_books_ops:
  "same_books s (close_port s)" "same_books s (close_stop s)" "same_books s (handleDisconnect s)"
  "same_books s (fst (Open dev s))"
proof -
  show p: "same_books s (close_port s)" for s
    by (auto simp: close_port_def split: option.splits)
  show c: "same_books s (close_stop s)" for s
    by (auto simp: close_stop_def)
  have "same_books s (close_stop (close_port s))"
    using same_books_trans [OF p c] .
  then show "same_books s (handleDisconnect s)"
    by (auto simp: handleDisconnect_eq Let_def intro!: same_books_trans [OF _ same_books_spawn])
  show "same_books s (fst (Open dev s))"
    by (auto simp: Open_def intro!: same_books_trans [OF _ same_books_spawn] split: option.splits)
qed

lemma goroutines_ops [simp]:
  "goroutines (close_port s) = goroutines s" "goroutines (close_stop s) = goroutines s"
  by (auto simp: close_port_def close_stop_def split: option.splits)

lemma books_fields_move [simp]:
  "sess_writeCh (move_to g q s) = sess_writeCh s" "sess_writeCh (exit_go g s) = sess_writeCh s"
  "replies (move_to g q s) = replies s" "lost (move_to g q s) = lost s"
  "wire (move_to g q s) = wire s" "next_req (move_to g q s) = next_req s"
  "sess_cfg (move_to g q s) = sess_cfg s"
  by (simp_all add: move_to_def exit_go_def)

lemma move_commutes [simp]:
  "move_to g q (s\<lparr>channels := a\<rparr>) = (move_to g q s)\<lparr>channels := a\<rparr>"
  "move_to g q (s\<lparr>ringBuffer := b\<rparr>) = (move_to g q s)\<lparr>ringBuffer := b\<rparr>"
  "move_to g q (s\<lparr>recorded := c\<rparr>) = (move_to g q s)\<lparr>recorded := c\<rparr>"
  "move_to g q (s\<lparr>seq_counter := d\<rparr>) = (move_to g q s)\<lparr>seq_counter := d\<rparr>"
  "move_to g q (s\<lparr>sess_writeCh := h\<rparr>) = (move_to g q s)\<lparr>sess_writeCh := h\<rparr>"
  "move_to g q (s\<lparr>replies := i\<rparr>) = (move_to g q s)\<lparr>replies := i\<rparr>"
  "move_to g q (s\<lparr>lost := j\<rparr>) = (move_to g q s)\<lparr>lost := j\<rparr>"
  "move_to g q (s\<lparr>wire := k\<rparr>) = (move_to g q s)\<lparr>wire := k\<rparr>"
  "exit_go g (s\<lparr>channels := a\<rparr>) = (exit_go g s)\<lparr>channels := a\<rparr>"
  by (simp_all add: move_to_def exit_go_def)

lemma accounted_read:
  assumes "goroutines s g = Some q" and "g < next_go s" and "read_step now c g q s = Some (Ret t)"
  shows "same_books s t"
proof -
  note mv = same_books_move [OF assms(2,1)]
  show ?thesis
  proof (cases q)
    case ReadDisconnect
    let ?s = "handleDisconnect s"
    have "goroutines ?s g = Some q" "g < next_go ?s"
      using assms(1,2) by (auto simp: handleDisconnect_eq spawn_def Let_def)
    then have "same_books ?s (exit_go g ?s)"
      using same_books_move(2) [of g ?s q] ReadDisconnect by simp
    then show ?thesis
      using same_books_trans [OF same_books_ops(3)] assms(3) ReadDisconnect by simp
  qed (use assms(3) mv in
    \<open>auto simp: then_do_eq_Ret Let_def dest!: broadcast_frame split: choice.splits if_splits option.splits\<close>)
qed

lemma accounted_recon:
  assumes "goroutines s g = Some q" and "g < next_go s" and "recon_step c g q s = Some (Ret t)"
  shows "same_books s t"
proof (cases q)
  case (ReconOpen st)
  obtain r where r: "c = OpenDone r" using assms(3) ReconOpen by (auto split: choice.splits)
  let ?s = "fst (Open (\<lambda>_ _. r) s)"
  obtain p where t: "t = move_to g p ?s" "held (Some p) = {#}"
    using assms(3) ReconOpen r by (auto simp: case_prod_beta split: if_splits)
  have "goroutines ?s g = Some q" "g < next_go ?s"
    using assms(1,2) by (auto simp: Open_def spawn_def split: option.splits)
  then have "same_books ?s t"
    using same_books_move(1) [of g ?s q p] ReconOpen t by simp
  then show ?thesis
    using same_books_trans [OF same_books_ops(4)] by blast
qed (use assms(3) same_books_move [OF assms(2,1)] in
    \<open>auto simp: then_do_eq_Ret dest!: broadcast_frame split: if_splits\<close>)

lemma accounted_write:
  assumes "goroutines s g = Some q" and "g < next_go s" and "write_step c g q s = Some t"
    and a: "accounted s"
  shows "accounted t"
proof (cases q)
  case WriteStart
  then show ?thesis
    using assms(3) same_books_move(1) [OF assms(2,1)] same_books_accounted a by force
next
  case (WriteTop st)
  show ?thesis
  proof (cases "c = TakeStop")
    case True
    then show ?thesis
      using assms(3) same_books_move(2) [OF assms(2,1)] same_books_accounted a WriteTop
      by (force split: if_splits)
  next
    case False
    then obtain req ch where r: "recv (sess_writeCh s) = Some (req, ch)"
        and t: "t = move_to g (WriteGot st req) (s\<lparr>sess_writeCh := ch\<rparr>)"
      using assms(3) WriteTop by (auto split: option.splits)
    have "in_flight t = in_flight s + {#Done req#}"
      using in_flight_move(1) [of g "s\<lparr>sess_writeCh := ch\<rparr>" q "WriteGot st req"] assms(1,2) WriteTop t
      by simp
    then show ?thesis
      using a recv_frame [OF r] t by (simp add: accounted_def waiting_def answered_def union_ac)
  qed
next
  case (WriteGot st req)
  have f: "in_flight s = add_mset (Done req) (in_flight (move_to g (WriteTop st) s))"
      "in_flight (move_to g (WritePort st req p) s) = in_flight s" for p
    using in_flight_move(2) [OF assms(2,1), of "WriteTop st"]
      in_flight_move(2) [OF assms(2,1), of "WritePort st req p"] WriteGot by simp_all
  show ?thesis
    using assms(3) a f WriteGot
    by (auto simp: accounted_def waiting_def answered_def split: option.splits if_splits)
next
  case (WritePort st req p)
  have f: "in_flight s = add_mset (Done req) (in_flight (move_to g (WriteTop st) s))"
    using in_flight_move(2) [OF assms(2,1)] WritePort by simp
  show ?thesis
    using assms(3) a f WritePort
    by (auto simp: accounted_def waiting_def answered_def split: if_splits choice.splits option.splits)
qed (use assms(3) in auto)
lemma accounted_gstep:
  assumes s: "session_inv s" and a: "accounted s" and r: "gstep now c g s = Some (Ret t)"
  shows "accounted t"
proof -
  obtain q where q: "goroutines s g = Some q" using r by (auto simp: gstep_def split: option.splits)
  have g: "g < next_go s" using live_below [OF s q] .
  consider "read_step now c g q s = Some (Ret t)" | "recon_step c g q s = Some (Ret t)"
    | "write_step c g q s = Some t" | "q = CloseTail" "t = exit_go g (close_stop s)"
    using r q by (auto simp: gstep_def split: option.splits if_splits)
  then show ?thesis
  proof cases
    case 4
    have "same_books (close_stop s) t"
      using same_books_move(2) [of g "close_stop s" q] q g 4 by simp
    then show ?thesis using same_books_trans [OF same_books_ops(2)] same_books_accounted a by blast
  qed (use accounted_read [OF q g] accounted_recon [OF q g] accounted_write [OF q g] a
      same_books_accounted in blast)+
qed

lemma accounted_submit: "accounted s \<Longrightarrow> submit d s = Some t \<Longrightarrow> accounted t"
  by (auto simp: submit_def send_def accounted_def waiting_def answered_def union_ac split: if_splits)

lemma accounted_step: "session_step l s t \<Longrightarrow> session_inv s \<Longrightarrow> accounted s \<Longrightarrow> accounted t"
proof (induction rule: session_step.induct)
  case (call_open s dev)
  then show ?case using same_books_ops(4) same_books_accounted by blast
next
  case (call_close s)
  have "same_books s (spawn CloseTail (close_port s))"
    using same_books_trans [OF same_books_ops(1) same_books_spawn [of CloseTail]] by simp
  then show ?case using call_close same_books_accounted by blast
qed (auto simp: Subscribe_def Unsubscribe_def then_do_eq_Ret SetRecorder_def
    dest: accounted_gstep accounted_submit intro: same_books_accounted [rotated])

lemma accounted_reach:
  "session_reach ok s0 s \<Longrightarrow> session_inv s0 \<Longrightarrow> accounted s0 \<Longrightarrow> accounted s"
  by (induction rule: session_reach.induct) (auto dest: inv_reach accounted_step)

lemma NewSerialSession_accounted: "NewSerialSession d cfg = Ret s \<Longrightarrow> accounted s"
  by (auto simp: NewSerialSession_def then_do_eq_Ret accounted_def waiting_def answered_def in_flight_def)

section \<open>Runs of one session\<close>

definition com3_config :: Config where
  "com3_config = zero_config
     \<lparr>Serial_Defaults := (Serial_Defaults zero_config)\<lparr>sd_Baudrate := 115200, sd_ByteSize := 8\<rparr>,
      Ring_Buffer := \<lparr>rbc_MaxLines = 100, rbc_MaxBytes = 4096\<rparr>,
      Reconnect := (Reconnect zero_config)\<lparr>DiscardInputOnDisconnect := True\<rparr>\<rparr>"

definition com3_session :: Session where
  "com3_session =
     (case NewSerialSession ''COM3'' com3_config of Ret s \<Rightarrow> s | Panic m \<Rightarrow> undefined)"

lemma com3_session_new: "NewSerialSession ''COM3'' com3_config = Ret com3_session"
  by (simp add: com3_session_def NewSerialSession_def NewRingBuffer_def com3_config_def)

lemma com3_limits: "0 \<le> rbc_MaxBytes (Ring_Buffer com3_config)"
  by (simp add: com3_config_def)

text \<open>The port opens, a subscriber's request is written, a line arrives.\<close>

definition working_run :: "command list" where
  "working_run =
     [DoOpen None, DoSubscribe, DoSubmit ''ls'', Go 1 Plain 0, Go 1 Plain 1, Go 2 Plain 1, Go 2 Plain 1,
      Go 2 (WriteDone None) 1, DoSubmit ''id'', Go 3 Plain 0, Go 3 Plain 0, Go 3 (ReadData (''ok'' @ [newline])) 0,
      Go 3 Plain 0, Go 3 Plain 0, Go 7 Plain 0, Go 7 Plain 0, Go 7 Plain 0]"

text \<open>The driver's read fails, the reader reports it and starts the reconnect loop (goroutine 2).\<close>

definition drop_run :: "command list" where
  "drop_run =
     [DoOpen None, Go 1 Plain 0, Go 1 Plain 1, Go 1 Plain 0, Go 1 Plain 0, Go 2 (ReadErr' ''EOF'') 0,
      Go 2 Plain 0, Go 2 Plain 0, Go 3 TakeStop 1, Go 3 Plain 2, Go 3 Plain 2]"

definition after :: "command list \<Rightarrow> Session" where
  "after cs = (case exec_cmds cs com3_session of Some t \<Rightarrow> t | None \<Rightarrow> com3_session)"

definition goes_through :: "command list \<Rightarrow> bool" where
  "goes_through cs \<longleftrightarrow> \<not> Option.is_none (exec_cmds cs com3_session)"

lemma after_reach:
  "goes_through cs \<Longrightarrow> list_all (\<lambda>c. ok (label_of c)) cs \<Longrightarrow> session_reach ok com3_session (after cs)"
  by (auto simp: goes_through_def after_def Option.is_none_def intro: exec_cmds_reach)

lemma after_append:
  assumes "goes_through (cs @ ds)"
  shows "goes_through cs" "exec_cmds ds (after cs) = Some (after (cs @ ds))"
  using assms
  by (auto simp: goes_through_def after_def exec_cmds_append Option.is_none_def split: option.splits)

lemma working_run_goes: "goes_through working_run"
  by code_simp

lemma working_run_reach:
  "session_reach any_label com3_session (after working_run)"
  "session_reach no_close com3_session (after working_run)"
  by (rule after_reach [OF working_run_goes]; simp add: any_label_def no_close_def working_run_def)+

lemma working_run_result:
  "connected (after working_run)" "open_ports (after working_run) = [0]"
  "map Line (rb_entries (ringBuffer (after working_run))) = [''ok'']"
  "map Seq (rb_entries (ringBuffer (after working_run))) = [1]"
  "wire (after working_run) = [(0, ''ls'')]" "replies (after working_run) = [(0, None)]"
  "next_req (after working_run) = 2" "map Done (buf (sess_writeCh (after working_run))) = [1]"
  "buf (channels (after working_run) 0) = [''ok'' @ [newline]]"
  by code_simp+

section \<open>Races with Close\<close>

text \<open>The port drops, \<open>Close\<close> is called while the reconnect loop sleeps, and every goroutine runs to its end.\<close>

definition after_close :: "command list" where
  "after_close =
     [Go 4 Plain 3, Go 5 (OpenDone None) 2, Go 5 Plain 2, Go 5 Plain 4, Go 5 Plain 4,
      Go 5 Plain 5, Go 5 TakeStop 5]"

definition close_race :: "command list" where
  "close_race = (drop_run @ [DoClose]) @ after_close"

lemma close_race_goes: "goes_through close_race"
  by code_simp

lemma close_race_result:
  "connected (after close_race)" "open_ports (after close_race) = [1]"
  "next_go (after close_race) = 6"
  "map (\<lambda>g. Option.is_none (goroutines (after close_race) g)) [0..<6] = replicate 6 True"
  by code_simp+

text \<open>The port drops, a request is submitted while it is down, and the reconnected port gets it.\<close>

definition while_down :: "command list" where
  "while_down =
     [DoSubmit ''reboot'', Go 4 (OpenDone None) 2, Go 4 Plain 4, Go 5 Plain 4, Go 5 Plain 4,
      Go 6 (WriteDone None) 4]"

definition late_input :: "command list" where
  "late_input = drop_run @ while_down"

lemma late_input_result:
  "goes_through late_input" "wire (after late_input) = [(1, ''reboot'')]"
  "replies (after late_input) = [(0, None)]"
  "goes_through drop_run" "connected (after drop_run) = False" "open_ports (after drop_run) = []"
  by code_simp+

section \<open>Properties\<close>

text \<open>C1. In every interleaving of the goroutines and their callers a session reports connected
  exactly when it holds a port, and that handle is the only one it has open in the operating
  system: no handle leaks and none is used after a replacement.\<close>

theorem session_owns_at_most_one_port:
  assumes "NewSerialSession d cfg = Ret s0" and "0 \<le> rbc_MaxBytes (Ring_Buffer cfg)"
    and "session_reach any_label s0 s"
  shows "IsConnected s = (port s \<noteq> None) \<and>
    open_ports s = (case port s of None \<Rightarrow> [] | Some p \<Rightarrow> [p])"
  using inv_reach [OF assms(3) NewSerialSession_inv [OF assms(1,2)]]
  by (simp add: session_inv_def ports_ok_def IsConnected_def)

theorem session_owns_at_most_one_port_witness:
  "open_ports (after working_run) = (case port (after working_run) of None \<Rightarrow> [] | Some p \<Rightarrow> [p])"
  using session_owns_at_most_one_port [OF com3_session_new com3_limits
      working_run_reach(1)]
  by simp



text \<open>C4. Every write request that was queued is in exactly one place in every interleaving: still
  queued, held by a writer, answered, or dropped. So none is answered twice (the one-slot \<open>Done\<close>
  channel never blocks the writer), each successful answer stands for one write to the device,
  and with \<open>discard_input_on_disconnect\<close> no request is dropped without an answer.\<close>

theorem requests_are_answered_once:
  assumes "NewSerialSession d cfg = Ret s0" and "0 \<le> rbc_MaxBytes (Ring_Buffer cfg)"
    and "session_reach any_label s0 s"
  shows "waiting s + in_flight s + answered s + mset (lost s) = mset [0..<next_req s] \<and>
    distinct (map fst (replies s)) \<and> set (map fst (replies s)) \<inter> set (lost s) = {} \<and>
    length (wire s) = length (filter (\<lambda>r. snd r = None) (replies s)) \<and>
    (DiscardInputOnDisconnect (Reconnect (sess_cfg s)) \<longrightarrow> lost s = [])"
proof -
  have a: "accounted s"
    using accounted_reach [OF assms(3) NewSerialSession_inv [OF assms(1,2)]
        NewSerialSession_accounted [OF assms(1)]] .
  obtain zs where "mset zs = waiting s + in_flight s" using ex_mset by blast
  then have "mset (zs @ map fst (replies s) @ lost s) = mset [0..<next_req s]"
    using a by (simp add: accounted_def answered_def add.assoc)
  then have "distinct (zs @ map fst (replies s) @ lost s)"
    using mset_eq_imp_distinct_iff distinct_upt by blast
  then show ?thesis using a by (auto simp: accounted_def)
qed

theorem requests_are_answered_once_witness:
  "distinct (map fst (replies (after working_run))) \<and> lost (after working_run) = []"
proof -
  have "DiscardInputOnDisconnect (Reconnect (sess_cfg (after working_run)))" by code_simp
  then show ?thesis
    using requests_are_answered_once [OF com3_session_new com3_limits working_run_reach(1)]
    by simp
qed

text \<open>C39. \<open>Close\<close> does not stop a reconnect attempt that is asleep: there is an interleaving in which
  the port drops, \<open>Close\<close> is called and completes, and the reconnect loop then opens the port
  again. Every goroutine has ended, the session reports connected and holds the handle, and no
  later \<open>Open\<close> can start a reader.\<close>

theorem close_during_reconnect_leaves_port_open:
  "\<exists>before called s. session_reach any_label com3_session before \<and>
     session_step CallClose before called \<and> session_reach internal_only called s \<and>
     IsConnected s \<and> open_ports s = [1] \<and> goroutines s = (\<lambda>_. None) \<and> Open dev s = (s, None)"
proof -
  let ?b = "after drop_run" and ?c = "after (drop_run @ [DoClose])" and ?s = "after close_race"
  note parts = after_append [OF close_race_goes [unfolded close_race_def], folded close_race_def]
  have r: "session_reach any_label com3_session ?s"
    using after_reach [OF close_race_goes] by (simp add: any_label_def list_all_iff)
  have b: "session_reach any_label com3_session ?b"
    using after_reach [OF after_append(1) [OF parts(1)]] by (simp add: any_label_def list_all_iff)
  have c: "session_step CallClose ?b ?c"
    using after_append(2) [OF parts(1)] exec_cmd_step [of DoClose ?b] by simp
  have s: "session_reach internal_only ?c ?s"
    by (rule exec_cmds_reach [OF parts(2)]) (simp add: internal_only_def after_close_def)
  have "session_inv ?s" using inv_reach [OF r NewSerialSession_inv [OF com3_session_new com3_limits]] .
  then have "goroutines ?s g = None" if "6 \<le> g" for g
    using that close_race_result(3) by (simp add: inv_defs)
  moreover have "goroutines ?s g = None" if "g < 6" for g
    using arg_cong [OF close_race_result(4), of "\<lambda>xs. xs ! g"] that by (simp add: Option.is_none_def)
  ultimately have "goroutines ?s = (\<lambda>_. None)" by (metis ext not_le)
  then show ?thesis using b c s close_race_result(1,2)
    by (intro exI [of _ ?b] exI [of _ ?c] exI [of _ ?s]) (simp add: IsConnected_def Open_def)
qed

text \<open>Input submitted while the port is down can still reach the device: with
  \<open>discard_input_on_disconnect\<close> set there is an interleaving without \<open>Close\<close> in which a request
  queued after the disconnect is written to the reopened port and answered with success.\<close>

theorem late_input_reaches_the_device:
  "\<exists>down s. session_reach no_close com3_session down \<and> \<not> IsConnected down \<and> wire down = [] \<and>
     next_req down = 0 \<and> session_reach no_close down s \<and>
     wire s = [(1, ''reboot'')] \<and> replies s = [(0, None)] \<and>
     DiscardInputOnDisconnect (Reconnect (sess_cfg s))"
proof -
  have "session_reach no_close com3_session (after drop_run)"
    by (rule after_reach [OF late_input_result(4)]) (simp add: drop_run_def no_close_def)
  moreover have "exec_cmds while_down (after drop_run) = Some (after late_input)"
    using after_append(2) late_input_result(1) unfolding late_input_def by blast
  then have "session_reach no_close (after drop_run) (after late_input)"
    by (rule exec_cmds_reach) (simp add: no_close_def while_down_def)
  moreover have "wire (after drop_run) = []" "next_req (after drop_run) = 0"
      "DiscardInputOnDisconnect (Reconnect (sess_cfg (after late_input)))"
    by code_simp+
  ultimately show ?thesis using late_input_result by (auto simp: IsConnected_def)
qed

end
