(* ===== verification/SessionLive.thy ===== *)
theory SessionLive
  imports SessionRuns
begin

text \<open>
  What a serial session guarantees as long as nobody calls \<open>Close\<close>: exactly one reader goroutine while
  connected, a history whose sequence numbers have no gap, and a reconnect loop whenever
  a port that was once open is down, from which one successful open by the driver reconnects.
\<close>

section \<open>The reader\<close>

text \<open>A reader that is where it should be: it watches the current stop channel and reads the current port.\<close>

fun reads :: "goroutine \<Rightarrow> bool" where
  "reads ReadStart = True"
| "reads (ReadTop st lb) = True"
| "reads (ReadPort st lb) = True"
| "reads (ReadBlocked st lb p) = True"
| "reads ReadFailed = True"
| "reads ReadDisconnect = True"
| "reads (ReadBroadcast st lb d) = True"
| "reads (ReadRecord st lb d) = True"
| "reads (ReadLines st lb) = True"
| "reads (ReadAppend st lb e) = True"
| "reads _ = False"

fun reader_ok :: "Session \<Rightarrow> goroutine \<Rightarrow> bool" where
  "reader_ok s (ReadTop st lb) \<longleftrightarrow> st = stopCh s"
| "reader_ok s (ReadPort st lb) \<longleftrightarrow> st = stopCh s"
| "reader_ok s (ReadBlocked st lb p) \<longleftrightarrow> st = stopCh s \<and> port s = Some p"
| "reader_ok s (ReadBroadcast st lb d) \<longleftrightarrow> st = stopCh s"
| "reader_ok s (ReadRecord st lb d) \<longleftrightarrow> st = stopCh s"
| "reader_ok s (ReadLines st lb) \<longleftrightarrow> st = stopCh s"
| "reader_ok s (ReadAppend st lb e) \<longleftrightarrow> st = stopCh s"
| "reader_ok s q \<longleftrightarrow> reads q"

fun pending :: "goroutine \<Rightarrow> Entry list" where
  "pending (ReadAppend st lb e) = [e]"
| "pending _ = []"

definition readers :: "Session \<Rightarrow> nat set" where
  "readers s = {g. \<exists>q. goroutines s g = Some q \<and> reads q}"

text \<open>Consecutive sequence numbers, the last of them the session's counter.\<close>

definition consecutive :: "int \<Rightarrow> Entry list \<Rightarrow> bool" where
  "consecutive n es \<longleftrightarrow> map Seq es = [n - int (length es) + 1..n]"

definition stops_ok :: "Session \<Rightarrow> bool" where
  "stops_ok s \<longleftrightarrow> stopCh s \<notin> set (closed_stops s) \<and> stopCh s < next_stop s \<and>
     (\<forall>st \<in> set (closed_stops s). st < next_stop s) \<and> (\<forall>g. goroutines s g \<noteq> Some CloseTail)"

definition one_reader :: "Session \<Rightarrow> bool" where
  "one_reader s \<longleftrightarrow>
     (if connected s
      then \<exists>g q. readers s = {g} \<and> goroutines s g = Some q \<and> reader_ok s q \<and>
             consecutive (seq_counter s) (rb_entries (ringBuffer s) @ pending q)
      else readers s = {} \<and> consecutive (seq_counter s) (rb_entries (ringBuffer s)))"

text \<open>A reconnect loop that has not given up.\<close>

fun reconnects :: "Session \<Rightarrow> goroutine \<Rightarrow> bool" where
  "reconnects s ReconStart = True"
| "reconnects s (ReconTop st) \<longleftrightarrow> st = stopCh s"
| "reconnects s (ReconOpen st) \<longleftrightarrow> st = stopCh s"
| "reconnects s _ = False"

definition recovering :: "Session \<Rightarrow> bool" where
  "recovering s \<longleftrightarrow> connected s \<or> next_port s = 0 \<or>
     (\<exists>g q. goroutines s g = Some q \<and> reconnects s q)"

definition live_inv :: "Session \<Rightarrow> bool" where
  "live_inv s \<longleftrightarrow> session_inv s \<and> stops_ok s \<and> one_reader s \<and> recovering s"

section \<open>Consecutive numbers\<close>

lemma consecutive_suffix:
  assumes "consecutive n es" and "suffix fs es"
  shows "consecutive n fs"
proof -
  obtain zs where es: "es = zs @ fs" using assms(2) by (auto simp: suffix_def)
  have "map Seq fs = drop (length zs) [n - int (length es) + 1..n]"
    using assms(1) es by (simp add: consecutive_def) (metis append_eq_conv_conj length_map)
  moreover have "drop k [i..n] = [i + int k..n]" for k i
  proof (induction k arbitrary: i)
    case (Suc k)
    then show ?case by (subst upto.simps) (auto simp: algebra_simps)
  qed simp
  ultimately show ?thesis by (simp add: consecutive_def es algebra_simps)
qed

lemma consecutive_snoc:
  assumes "consecutive n es" and "Seq e = n + 1"
  shows "consecutive (n + 1) (es @ [e])"
  using assms by (simp add: consecutive_def upto_rec2 algebra_simps)

section \<open>Steps that do not concern the reader\<close>

text \<open>Goroutine \<open>g\<close>, not a reader, moves on and leaves the port, the stop channel and the history alone.\<close>

definition aside :: "nat \<Rightarrow> Session \<Rightarrow> Session \<Rightarrow> bool" where
  "aside g s t \<longleftrightarrow> (\<forall>i. i \<noteq> g \<longrightarrow> goroutines t i = goroutines s i) \<and>
     g \<notin> readers s \<and> g \<notin> readers t \<and> goroutines t g \<noteq> Some CloseTail \<and>
     connected t = connected s \<and> port t = port s \<and> stopCh t = stopCh s \<and>
     closed_stops t = closed_stops s \<and> next_stop t = next_stop s \<and>
     seq_counter t = seq_counter s \<and> ringBuffer t = ringBuffer s \<and> next_port t = next_port s"

lemma reader_ok_cong: "stopCh t = stopCh s \<Longrightarrow> port t = port s \<Longrightarrow> reader_ok t q = reader_ok s q"
  by (cases q) auto

lemma reconnects_cong: "stopCh t = stopCh s \<Longrightarrow> reconnects t q = reconnects s q"
  by (cases q) auto

lemma aside_readers: "aside g s t \<Longrightarrow> readers t = readers s"
  by (auto simp: aside_def readers_def)

lemma aside_one_reader:
  assumes "aside g s t" and "one_reader s"
  shows "one_reader t"
proof (cases "connected s")
  case True
  then obtain i q where "readers s = {i}" "goroutines s i = Some q" "reader_ok s q"
      "consecutive (seq_counter s) (rb_entries (ringBuffer s) @ pending q)"
    using assms(2) by (auto simp: one_reader_def)
  moreover from this have "i \<noteq> g" using assms(1) by (auto simp: aside_def)
  ultimately show ?thesis
    using assms(1) aside_readers [OF assms(1)] reader_ok_cong [of t s q] True
    by (auto simp: one_reader_def aside_def)
next
  case False
  then show ?thesis
    using assms aside_readers [OF assms(1)] by (auto simp: one_reader_def aside_def)
qed

lemma aside_stops: "aside g s t \<Longrightarrow> stops_ok s \<Longrightarrow> stops_ok t"
  unfolding aside_def stops_ok_def by metis

lemma aside_recovering:
  assumes "aside g s t" and "recovering s"
    and "\<And>q. goroutines s g = Some q \<Longrightarrow> reconnects s q \<Longrightarrow>
      \<exists>q'. goroutines t g = Some q' \<and> reconnects t q'"
  shows "recovering t"
  using assms reconnects_cong [of t s] unfolding aside_def recovering_def by metis

lemma aside_write:
  assumes "goroutines s g = Some q" and "write_step c g q s = Some t"
  shows "aside g s t"
  using assms
  by (cases q) (auto simp: aside_def move_to_def exit_go_def readers_def
      split: if_splits option.splits choice.splits)

lemma aside_recon:
  assumes "goroutines s g = Some q" and "recon_step c g q s = Some (Ret t)" and "\<And>st. q \<noteq> ReconOpen st"
  shows "aside g s t"
  using assms
  by (cases q) (auto simp: aside_def move_to_def exit_go_def readers_def then_do_eq_Ret
      dest!: broadcast_frame split: if_splits)

lemma aside_live:
  assumes "aside g s t" and "live_inv s" and "session_inv t"
    and "\<And>q. goroutines s g = Some q \<Longrightarrow> reconnects s q \<Longrightarrow>
      recovering t"
  shows "live_inv t"
proof -
  have "recovering t"
  proof (cases "\<exists>q. goroutines s g = Some q \<and> reconnects s q")
    case False
    then show ?thesis using aside_recovering [OF assms(1)] assms(2) by (auto simp: live_inv_def)
  qed (use assms(4) in auto)
  then show ?thesis
    using assms aside_stops aside_one_reader by (auto simp: live_inv_def)
qed

section \<open>Opening\<close>

lemma Open_one_reader:
  assumes "session_inv s" and "one_reader s"
  shows "one_reader (fst (Open dev s))"
proof (cases "connected s \<or> dev (sess_device s) (serial_mode s) \<noteq> None")
  case True
  then show ?thesis using assms by (auto simp: Open_def)
next
  case False
  then have "readers s = {}" "consecutive (seq_counter s) (rb_entries (ringBuffer s))"
    using assms by (auto simp: one_reader_def)
  moreover have "readers (fst (Open dev s)) = {next_go s}"
    using False \<open>readers s = {}\<close> by (auto simp: Open_def spawn_def readers_def split: if_splits)
  ultimately show ?thesis
    using False by (auto simp: one_reader_def Open_def spawn_def)
qed

lemma Open_stops: "stops_ok s \<Longrightarrow> stops_ok (fst (Open dev s))"
  by (auto simp: Open_def stops_ok_def spawn_def split: option.splits)

lemma Open_recovering: "recovering s \<Longrightarrow> recovering (fst (Open dev s))"
  by (auto simp: Open_def recovering_def spawn_def split: option.splits)

lemma Open_live: "live_inv s \<Longrightarrow> live_inv (fst (Open dev s))"
  by (simp add: live_inv_def inv_Open Open_one_reader Open_stops Open_recovering)

lemma recovering_move:
  assumes "goroutines s g = Some q" and "recovering s" and "reconnects s q'"
  shows "recovering (move_to g q' s)"
proof -
  have "reconnects (move_to g q' s) q'"
    using assms(3) reconnects_cong [of "move_to g q' s" s q'] by (simp add: move_to_def)
  then show ?thesis by (auto simp: recovering_def move_to_def)
qed

lemma recon_live:
  assumes l: "live_inv s" and g: "goroutines s g = Some q" and r: "recon_step c g q s = Some (Ret t)"
  shows "live_inv t"
proof (cases "\<exists>st. q = ReconOpen st")
  case False
  have i: "session_inv t" using inv_recon_step [OF _ g r] l by (auto simp: live_inv_def)
  show ?thesis
  proof (rule aside_live [OF aside_recon [OF g r] l i])
    fix q' assume "goroutines s g = Some q'" "reconnects s q'"
    then have q: "reconnects s q" using g by simp
    show "recovering t"
      using r q False l g recovering_move [OF g]
      by (cases q) (auto simp: live_inv_def stops_ok_def)
  qed (use False in auto)
next
  case True
  then obtain st r' where q: "q = ReconOpen st" and c: "c = OpenDone r'"
    using r by (auto split: choice.splits)
  let ?s = "fst (Open (\<lambda>_ _. r') s)"
  have l': "live_inv ?s" using Open_live [OF l] .
  have g': "goroutines ?s g = Some q" "g < next_go ?s"
    using g live_below [of s g q] l by (auto simp: live_inv_def Open_def spawn_def split: option.splits)
  have "snd (Open (\<lambda>_ _. r') s) = None \<Longrightarrow> connected ?s"
       "snd (Open (\<lambda>_ _. r') s) \<noteq> None \<Longrightarrow> ?s = s"
    by (auto simp: Open_def spawn_def split: option.splits if_splits)
  then have "\<exists>p. t = move_to g p ?s \<and> (p = ReconBroadcast \<and> connected ?s \<or> p = ReconTop st \<and> ?s = s)"
    using r q c by (auto simp: case_prod_beta split: if_splits)
  then obtain p where t: "t = move_to g p ?s"
      and p: "p = ReconBroadcast \<and> connected ?s \<or> p = ReconTop st \<and> ?s = s" by blast
  have "session_inv t" using inv_move [of ?s g p] l' g' t p by (auto simp: live_inv_def)
  moreover have "aside g ?s t" using g' q p t by (auto simp: aside_def move_to_def readers_def)
  moreover have "recovering t" if "reconnects ?s q'" "goroutines ?s g = Some q'" for q'
    using p t q g' that recovering_move [OF g'(1), of p] l'
    by (auto simp: live_inv_def) (auto simp: recovering_def move_to_def)
  ultimately show ?thesis using aside_live l' by blast
qed

section \<open>Reading\<close>

lemma reader_facts:
  assumes "live_inv s" and "goroutines s g = Some q" and "reads q"
  shows "connected s" "readers s = {g}" "reader_ok s q" "port s \<noteq> None"
    "consecutive (seq_counter s) (rb_entries (ringBuffer s) @ pending q)"
proof -
  have "g \<in> readers s" using assms by (auto simp: readers_def)
  then show c: "connected s" using assms(1) by (auto simp: live_inv_def one_reader_def split: if_splits)
  have "\<exists>i p. readers s = {i} \<and> goroutines s i = Some p \<and> reader_ok s p \<and>
      consecutive (seq_counter s) (rb_entries (ringBuffer s) @ pending p)"
    using assms(1) c by (simp add: live_inv_def one_reader_def)
  then show "readers s = {g}" "reader_ok s q"
      "consecutive (seq_counter s) (rb_entries (ringBuffer s) @ pending q)"
    using \<open>g \<in> readers s\<close> assms(2) by auto
  show "port s \<noteq> None" using assms(1) c by (simp add: live_inv_def session_inv_def ports_ok_def)
qed

lemma readers_cong [simp]:
  "readers (s\<lparr>channels := a\<rparr>) = readers s" "readers (s\<lparr>ringBuffer := b\<rparr>) = readers s"
  "readers (s\<lparr>recorded := c\<rparr>) = readers s" "readers (s\<lparr>seq_counter := d\<rparr>) = readers s"
  by (simp_all add: readers_def)

lemma reader_moves:
  assumes "connected s" and "readers s = {g}" and "reads q'" and "reader_ok s q'"
    and "consecutive (seq_counter s) (rb_entries (ringBuffer s) @ pending q')"
  shows "one_reader (move_to g q' s)"
proof -
  have "readers (move_to g q' s) = {g}"
    using assms(2,3) by (auto simp: readers_def move_to_def split: if_splits)
  moreover have "reader_ok (move_to g q' s) q'"
    using assms(4) reader_ok_cong [of "move_to g q' s" s] by (simp add: move_to_def)
  ultimately show ?thesis using assms by (auto simp: one_reader_def) (simp_all add: move_to_def)
qed

lemma stops_move: "stops_ok s \<Longrightarrow> q \<noteq> CloseTail \<Longrightarrow> stops_ok (move_to g q s)"
  by (auto simp: stops_ok_def move_to_def)

lemma disconnect_live:
  assumes l: "live_inv s" and g: "goroutines s g = Some ReadDisconnect"
  shows "live_inv (exit_go g (handleDisconnect s))"
proof -
  let ?t = "exit_go g (handleDisconnect s)"
  obtain p where p: "port s = Some p" using reader_facts(4) [OF l g] by auto
  note f = reader_facts(1,2,3,5) [OF l g, simplified]
  have s: "session_inv s" "stops_ok s" "g < next_go s"
    using l g live_below by (auto simp: live_inv_def)
  have t: "handleDisconnect s = spawn ReconStart
      (s\<lparr>open_ports := removeAll p (open_ports s), port := None, connected := False,
         closed_stops := stopCh s # closed_stops s, stopCh := next_stop s, next_stop := Suc (next_stop s)\<rparr>)"
    using s(2) p by (simp add: handleDisconnect_def close_stop_def stops_ok_def)
  have "readers ?t = {}"
    using f(2) by (auto simp: t readers_def exit_go_def spawn_def split: if_splits)
  moreover have "stops_ok ?t"
    using s(2) by (auto simp: t stops_ok_def exit_go_def spawn_def less_Suc_eq)
  moreover have "recovering ?t"
    using s(3) by (auto simp: t recovering_def exit_go_def spawn_def intro!: exI [of _ "next_go s"])
  moreover have "session_inv ?t" using s(1) by simp
  ultimately show ?thesis
    using f(4) by (auto simp: live_inv_def one_reader_def) (simp_all add: t exit_go_def spawn_def)
qed

lemma read_frame:
  assumes "read_step now c g q s = Some (Ret t)" and "q \<noteq> ReadDisconnect"
  shows "(\<forall>i. i \<noteq> g \<longrightarrow> goroutines t i = goroutines s i) \<and> goroutines t g \<noteq> Some CloseTail \<and>
    connected t = connected s \<and> stopCh t = stopCh s \<and> closed_stops t = closed_stops s \<and>
    next_stop t = next_stop s"
  using assms
  by (cases q) (auto simp: move_to_def exit_go_def then_do_eq_Ret Let_def simp del: move_commutes
      dest!: broadcast_frame split: choice.splits if_splits option.splits)

lemma read_live:
  assumes l: "live_inv s" and g: "goroutines s g = Some q" and r: "read_step now c g q s = Some (Ret t)"
  shows "live_inv t"
proof (cases "q = ReadDisconnect")
  case True
  then show ?thesis using disconnect_live [OF l] g r by auto
next
  case False
  have rd: "reads q" using r by (cases q) auto
  note f = reader_facts [OF l g rd]
  have i: "session_inv t" using inv_read_step [OF _ g r] l by (auto simp: live_inv_def)
  have so: "stopCh s \<notin> set (closed_stops s)" using l by (simp add: live_inv_def stops_ok_def)
  have "one_reader t"
  proof (cases q)
    case (ReadLines st lb)
    then show ?thesis
      using r f consecutive_snoc [of "seq_counter s" "rb_entries (ringBuffer s)"]
      by (auto simp: Let_def simp del: move_commutes intro!: reader_moves split: option.splits)
  next
    case (ReadAppend st lb e)
    then obtain b where b: "Append (ringBuffer s) e = Ret b"
        "t = move_to g (ReadLines st lb) (s\<lparr>ringBuffer := b\<rparr>)"
      using r by (auto simp: then_do_eq_Ret)
    have "session_inv s" using l by (simp add: live_inv_def)
    then have "rb_ok (maxLines (ringBuffer s)) (maxBytes (ringBuffer s)) (ringBuffer s)" "stamped q"
      using g by (auto simp: inv_defs)
    then have "rb_entries b = keep_newest (maxLines (ringBuffer s)) (maxBytes (ringBuffer s))
        (rb_entries (ringBuffer s) @ [e])"
      using rb.app_ok [of "maxLines (ringBuffer s)" "maxBytes (ringBuffer s)" "ringBuffer s" e] b(1) ReadAppend
      by auto
    then have "suffix (rb_entries b) (rb_entries (ringBuffer s) @ [e])"
      by (simp only: keep_newest_suffix)
    then show ?thesis
      using f ReadAppend consecutive_suffix b(2) by (auto simp del: move_commutes intro!: reader_moves)
  next
    case (ReadBlocked st lb p)
    then have "\<exists>q'. t = move_to g q' s \<and> reads q' \<and> reader_ok s q' \<and> pending q' = []"
      using r f(3) by (auto split: choice.splits if_splits)
    then show ?thesis using reader_moves [OF f(1,2)] f(5) ReadBlocked by auto
  next
    case ReadFailed
    then obtain chans where "t = move_to g ReadDisconnect (s\<lparr>channels := chans\<rparr>)"
      using r by (auto simp: then_do_eq_Ret simp del: move_commutes dest!: broadcast_frame)
    then show ?thesis using reader_moves [of "s\<lparr>channels := chans\<rparr>" g] f ReadFailed by simp
  next
    case (ReadBroadcast st lb d)
    then obtain chans where "t = move_to g (ReadRecord st lb d) (s\<lparr>channels := chans\<rparr>)"
      using r by (auto simp: then_do_eq_Ret simp del: move_commutes dest!: broadcast_frame)
    then show ?thesis using reader_moves [of "s\<lparr>channels := chans\<rparr>" g] f ReadBroadcast by simp
  next
    case (ReadRecord st lb d)
    then obtain rec where "t = move_to g (ReadLines st (lb @ d)) (s\<lparr>recorded := rec\<rparr>)"
      using r that [of "recorded s"] that
      by (auto simp del: move_commutes split: option.splits)
    then show ?thesis using reader_moves [of "s\<lparr>recorded := rec\<rparr>" g] f ReadRecord by simp
  qed (use r f reader_moves [OF f(1,2)] so False in \<open>auto split: option.splits\<close>)
  moreover have "connected t" "stops_ok t"
    using f(1) read_frame [OF r False] l unfolding live_inv_def stops_ok_def by metis+
  ultimately show ?thesis using i by (simp add: live_inv_def recovering_def)
qed

section \<open>Every step\<close>

lemma write_live:
  assumes l: "live_inv s" and g: "goroutines s g = Some q" and r: "write_step c g q s = Some t"
  shows "live_inv t"
proof (rule aside_live [OF aside_write [OF g r] l])
  show "session_inv t" using inv_write_step [OF _ g r] l by (simp add: live_inv_def)
  fix p assume "goroutines s g = Some p" "reconnects s p"
  then show "recovering t" using g r by (cases q) auto
qed

lemma gstep_live:
  assumes l: "live_inv s" and r: "gstep now c g s = Some (Ret t)"
  shows "live_inv t"
proof -
  obtain q where q: "goroutines s g = Some q" using r by (auto simp: gstep_def split: option.splits)
  moreover have "q \<noteq> CloseTail" using q l by (auto simp: live_inv_def stops_ok_def)
  ultimately consider "read_step now c g q s = Some (Ret t)" | "recon_step c g q s = Some (Ret t)"
    | "write_step c g q s = Some t"
    using r by (auto simp: gstep_def split: option.splits if_splits)
  then show ?thesis using read_live [OF l q] recon_live [OF l q] write_live [OF l q] by cases blast+
qed

text \<open>The fields of a session the live invariant does not read.\<close>

lemma live_outside:
  assumes "live_inv s" and "session_inv t" and "goroutines t = goroutines s" and "connected t = connected s"
    and "port t = port s" and "stopCh t = stopCh s" and "closed_stops t = closed_stops s"
    and "next_stop t = next_stop s" and "seq_counter t = seq_counter s"
    and "ringBuffer t = ringBuffer s" and "next_port t = next_port s"
  shows "live_inv t"
proof -
  have "readers t = readers s" using assms(3) by (simp add: readers_def)
  moreover have "reader_ok t q = reader_ok s q" "reconnects t q = reconnects s q" for q
    using reader_ok_cong [of t s q] reconnects_cong [of t s q] assms by simp_all
  ultimately show ?thesis
    using assms unfolding live_inv_def stops_ok_def one_reader_def recovering_def by simp metis
qed

lemma live_step: "session_step l s t \<Longrightarrow> no_close l \<Longrightarrow> live_inv s \<Longrightarrow> live_inv t"
proof (induction rule: session_step.induct)
  case (go now c g s t)
  then show ?case using gstep_live by blast
next
  case (call_open s dev)
  then show ?case using Open_live by blast
next
  case (call_close s)
  then show ?case by (simp add: no_close_def)
next
  case (call_subscribe s)
  then have "session_inv (fst (Subscribe s))" using inv_Subscribe live_inv_def by blast
  then show ?case by (rule live_outside [OF call_subscribe(2)]) (simp_all add: Subscribe_def)
next
  case (call_unsubscribe ch s t)
  then have i: "session_inv t" using inv_Unsubscribe live_inv_def by blast
  obtain c where "t = s\<lparr>subscribers := removeAll ch (subscribers s), channels := (channels s)(ch := c)\<rparr>"
    using call_unsubscribe(2) by (auto simp: Unsubscribe_def then_do_eq_Ret)
  then show ?case using i by (intro live_outside [OF call_unsubscribe(4)]) simp_all
next
  case (call_receive s ch m c)
  then have "session_inv (s\<lparr>channels := (channels s)(ch := c)\<rparr>)" using inv_receive live_inv_def by blast
  then show ?case by (rule live_outside [OF call_receive(3)]) simp_all
next
  case (call_submit data s t)
  then have i: "session_inv t" using inv_submit live_inv_def by blast
  obtain c where "t = s\<lparr>sess_writeCh := c, next_req := Suc (next_req s)\<rparr>"
    using call_submit(1) by (auto simp: submit_def split: option.splits outcome.splits)
  then show ?case using i by (intro live_outside [OF call_submit(3)]) simp_all
next
  case (call_set_recorder s r)
  then have "session_inv (SetRecorder r s)" by (simp add: SetRecorder_def live_inv_def)
  then show ?case by (rule live_outside [OF call_set_recorder(2)]) (simp_all add: SetRecorder_def)
qed

lemma live_reach: "session_reach no_close s0 s \<Longrightarrow> live_inv s0 \<Longrightarrow> live_inv s"
  by (induction rule: session_reach.induct) (auto dest: live_step)

lemma NewSerialSession_live:
  assumes "NewSerialSession d cfg = Ret s" and "0 \<le> rbc_MaxBytes (Ring_Buffer cfg)"
  shows "live_inv s"
  using assms NewSerialSession_inv [OF assms]
  by (auto simp: NewSerialSession_def then_do_eq_Ret NewRingBuffer_def live_inv_def stops_ok_def
      one_reader_def recovering_def readers_def consecutive_def split: if_splits)

section \<open>Recovery\<close>

lemma gstep_reach: "gstep now c g s = Some (Ret t) \<Longrightarrow> session_reach internal_only s t"
  using session_reach.extend [OF session_reach.refl session_step.go] by (auto simp: internal_only_def)

lemma recon_open_connects:
  assumes "goroutines s g = Some (ReconOpen st)"
  shows "\<exists>t. session_reach internal_only s t \<and> connected t"
proof -
  let ?t = "move_to g ReconBroadcast (fst (Open (\<lambda>_ _. None) s))"
  have "gstep 0 (OpenDone None) g s = Some (Ret ?t)"
    using assms by (auto simp: gstep_def Open_def)
  moreover have "connected ?t" by (simp add: Open_def move_to_def spawn_def)
  ultimately show ?thesis using gstep_reach by blast
qed

lemma recon_top_connects:
  assumes "goroutines s g = Some (ReconTop (stopCh s))" and "stopCh s \<notin> set (closed_stops s)"
  shows "\<exists>t. session_reach internal_only s t \<and> connected t"
proof -
  let ?t = "move_to g (ReconOpen (stopCh s)) s"
  have "gstep 0 Plain g s = Some (Ret ?t)" using assms by (simp add: gstep_def)
  moreover have "goroutines ?t g = Some (ReconOpen (stopCh s))" by (simp add: move_to_def)
  ultimately show ?thesis using recon_open_connects gstep_reach reach_trans by blast
qed

lemma recovering_connects:
  assumes "goroutines s g = Some q" and "reconnects s q" and "stopCh s \<notin> set (closed_stops s)"
  shows "\<exists>t. session_reach internal_only s t \<and> connected t"
proof (cases q)
  case ReconStart
  let ?t = "move_to g (ReconTop (stopCh s)) s"
  have "gstep 0 Plain g s = Some (Ret ?t)" using assms(1) ReconStart by (simp add: gstep_def)
  moreover have "\<exists>u. session_reach internal_only ?t u \<and> connected u"
    using assms(3) recon_top_connects [of ?t g] by (simp add: move_to_def)
  ultimately show ?thesis using gstep_reach reach_trans by blast
qed (use assms recon_top_connects recon_open_connects in auto)

section \<open>Properties\<close>

text \<open>C11. While nobody calls \<open>Close\<close>, every interleaving (disconnects, reconnects and extra calls of
  \<open>Open\<close> included) has exactly one reader goroutine when the session is connected and none when it
  is not, so input is never read twice or interleaved.\<close>

theorem one_reader_while_connected:
  assumes "NewSerialSession d cfg = Ret s0" and "0 \<le> rbc_MaxBytes (Ring_Buffer cfg)"
    and "session_reach no_close s0 s"
  shows "card (readers s) = (if IsConnected s then 1 else 0) \<and> finite (readers s)"
proof -
  have "one_reader s"
    using live_reach [OF assms(3) NewSerialSession_live [OF assms(1,2)]] by (simp add: live_inv_def)
  then show ?thesis by (auto simp: one_reader_def IsConnected_def split: if_splits)
qed

theorem one_reader_while_connected_witness:
  "IsConnected (after working_run) \<and> card (readers (after working_run)) = 1"
  using one_reader_while_connected [OF com3_session_new com3_limits working_run_reach(2)]
  by (simp add: working_run_result(1) IsConnected_def)

text \<open>C26. While nobody calls \<open>Close\<close>, the sequence numbers of the stored lines have no gap and no
  repetition in any interleaving, across disconnects too; the newest is the session's counter,
  or one less while a line has its number and is not stored yet.\<close>

theorem history_numbers_are_consecutive:
  assumes "NewSerialSession d cfg = Ret s0" and "0 \<le> rbc_MaxBytes (Ring_Buffer cfg)"
    and "session_reach no_close s0 s"
  shows "\<exists>n \<in> {seq_counter s - 1, seq_counter s}.
    map Seq (All (ringBuffer s)) = [n - int (length (All (ringBuffer s))) + 1..n]"
proof -
  have o: "one_reader s"
    using live_reach [OF assms(3) NewSerialSession_live [OF assms(1,2)]] by (simp add: live_inv_def)
  have "consecutive (n - 1) es" if c: "consecutive n (es @ [e])" for n es e
  proof -
    have "[n - int (length es)..n] = [n - int (length es)..n - 1] @ [n]" by (simp add: upto_rec2)
    then show ?thesis using c by (simp add: consecutive_def algebra_simps)
  qed
  moreover have "pending q = [] \<or> (\<exists>e. pending q = [e])" for q by (cases q) auto
  ultimately have "consecutive (seq_counter s) (rb_entries (ringBuffer s)) \<or>
      consecutive (seq_counter s - 1) (rb_entries (ringBuffer s))"
    using o unfolding one_reader_def by (metis append_Nil2)
  then show ?thesis by (auto simp: consecutive_def All_def)
qed

theorem history_numbers_are_consecutive_witness:
  "\<exists>n \<in> {seq_counter (after working_run) - 1, seq_counter (after working_run)}.
     map Seq (All (ringBuffer (after working_run))) =
       [n - int (length (All (ringBuffer (after working_run)))) + 1..n]"
  by (rule history_numbers_are_consecutive [OF com3_session_new com3_limits working_run_reach(2)])

text \<open>C21. While nobody calls \<open>Close\<close>, a session whose port was once open and is down now always has a
  live reconnect loop, and from every such state goroutine steps alone lead back to a
  connected session as soon as one open by the driver succeeds.\<close>

theorem lost_port_is_recovered:
  assumes "NewSerialSession d cfg = Ret s0" and "0 \<le> rbc_MaxBytes (Ring_Buffer cfg)"
    and "session_reach no_close s0 s" and "0 < next_port s" and "\<not> IsConnected s"
  shows "(\<exists>g q. goroutines s g = Some q \<and> reconnects s q) \<and>
    (\<exists>t. session_reach internal_only s t \<and> IsConnected t)"
proof -
  have l: "live_inv s" using live_reach [OF assms(3) NewSerialSession_live [OF assms(1,2)]] .
  then obtain g q where "goroutines s g = Some q" "reconnects s q"
    using assms(4,5) by (auto simp: live_inv_def recovering_def IsConnected_def)
  moreover from this have "\<exists>t. session_reach internal_only s t \<and> IsConnected t"
    using l recovering_connects by (simp add: live_inv_def stops_ok_def IsConnected_def)
  ultimately show ?thesis by blast
qed

theorem lost_port_is_recovered_witness:
  "\<exists>t. session_reach internal_only (after drop_run) t \<and> IsConnected t"
proof -
  have "0 < next_port (after drop_run)" by code_simp
  moreover have "session_reach no_close com3_session (after drop_run)"
    by (rule after_reach [OF late_input_result(4)]) (simp add: drop_run_def no_close_def)
  ultimately show ?thesis
    using lost_port_is_recovered [OF com3_session_new com3_limits] late_input_result(5)
    by (auto simp: IsConnected_def)
qed

end
