(* ===== verification/SshServer.thy ===== *)
theory SshServer
  imports Session
begin

text \<open>
  \<open>internal/ssh/server.go\<close>: the SSH server of one device, its port number, its host key and the
  start and stop of its listener. The listener library (gliderlabs/ssh) is represented by the settings
  the code gives it.
\<close>

section \<open>The SSH port of a device\<close>

definition port_digits :: "string \<Rightarrow> string" where
  "port_digits device = (if length device > 3 \<and> take 3 device = ''COM'' then drop 3 device else device)"

definition PortMapping :: "string \<Rightarrow> Config \<Rightarrow> int" where
  "PortMapping device cfg =
     (case atoi (port_digits device) of
        None \<Rightarrow> 0
      | Some num \<Rightarrow> wrap64 (BasePort (SSH cfg) + num))"

section \<open>The host key\<close>

text \<open>
  What the environment answers: an error of \<open>os.ReadFile\<close> other than a missing file, the key
  generator, the PKCS8 marshaller, the PEM encoder, and a failure of \<open>os.WriteFile\<close> with what it
  leaves on disk.
\<close>

record key_env =
  key_read_err :: "error option"
  key_generate :: "error + bytes"
  key_marshal :: "bytes \<Rightarrow> error + bytes"
  pem_encode :: "bytes \<Rightarrow> bytes"
  key_save_fail :: "(error \<times> bytes option) option"

text \<open>The second component is the contents of the key file afterwards, \<open>None\<close> when it does not exist.\<close>

definition LoadOrGenerateHostKeyPEM :: "key_env \<Rightarrow> bytes option \<Rightarrow> (error + bytes) \<times> bytes option" where
  "LoadOrGenerateHostKeyPEM env disk =
     (case key_read_err env of
        Some e \<Rightarrow> (Inl (''read host key: '' @ e), disk)
      | None \<Rightarrow>
     (case disk of
        Some keyData \<Rightarrow> (Inr keyData, disk)
      | None \<Rightarrow>
     (case key_generate env of
        Inl e \<Rightarrow> (Inl (''generate host key: '' @ e), disk)
      | Inr priv \<Rightarrow>
     (case key_marshal env priv of
        Inl e \<Rightarrow> (Inl (''marshal host key: '' @ e), disk)
      | Inr marshaled \<Rightarrow>
          (let pemData = pem_encode env marshaled in
           case key_save_fail env of
             Some (e, left) \<Rightarrow> (Inl (''save host key: '' @ e), left)
           | None \<Rightarrow> (Inr pemData, Some pemData))))))"

section \<open>The server\<close>

record SshListener =
  Addr :: string
  HostKeyPEM :: bytes
  PasswordHandler :: "(string \<Rightarrow> bool) option"
  listening :: bool

record SSHServer =
  srv_device :: string
  sshPort :: int
  srv_cfg :: Config
  session :: Session
  server :: "SshListener option"
  running :: bool

definition NewSSHServer :: "string \<Rightarrow> Config \<Rightarrow> (error + SSHServer) outcome" where
  "NewSSHServer device cfg =
     (let p = PortMapping device cfg in
      if p = 0 then Ret (Inl (''cannot determine SSH port for device '' @ device))
      else then_do (NewSerialSession device cfg) (\<lambda>sess.
        Ret (Inr \<lparr>srv_device = device, sshPort = p, srv_cfg = cfg, session = sess, server = None,
                  running = False\<rparr>)))"

definition Port :: "SSHServer \<Rightarrow> int" where
  "Port s = sshPort s"

definition Device :: "SSHServer \<Rightarrow> string" where
  "Device s = srv_device s"

definition IsRunning :: "SSHServer \<Rightarrow> bool" where
  "IsRunning s = running s"

definition StartServer ::
  "key_env \<Rightarrow> bytes option \<Rightarrow> SSHServer \<Rightarrow> (error option \<times> SSHServer) \<times> bytes option" where
  "StartServer env disk s =
     (if running s then ((None, s), disk)
      else (case LoadOrGenerateHostKeyPEM env disk of
          (Inl e, disk') \<Rightarrow> ((Some (''host key: '' @ e), s), disk')
        | (Inr pemData, disk') \<Rightarrow>
            (let l = \<lparr>Addr = CHR '':'' # itoa (sshPort s), HostKeyPEM = pemData,
                      PasswordHandler =
                        (if auth_Type (Auth (SSH (srv_cfg s))) = ''password''
                         then Some (\<lambda>password. password = auth_Password (Auth (SSH (srv_cfg s))))
                         else None),
                      listening = True\<rparr>
             in ((None, s\<lparr>server := Some l, running := True\<rparr>), disk'))))"

definition StopServer :: "SSHServer \<Rightarrow> SSHServer" where
  "StopServer s =
     (if \<not> running s then s
      else s\<lparr>running := False, server := map_option (\<lambda>l. l\<lparr>listening := False\<rparr>) (server s),
             session := Close (session s)\<rparr>)"

section \<open>Lemmas\<close>

lemma port_digits_com [simp]: "ds \<noteq> [] \<Longrightarrow> port_digits (''COM'' @ ds) = ds"
  by (cases ds) (auto simp: port_digits_def)

lemma PortMapping_com:
  assumes "in_int64 (int n)"
  shows "PortMapping (''COM'' @ nat_dec n) cfg = wrap64 (BasePort (SSH cfg) + int n)"
proof -
  have "port_digits (''COM'' @ nat_dec n) = nat_dec n" by (rule port_digits_com) simp
  then show ?thesis using atoi_nat_dec [OF assms] by (simp add: PortMapping_def)
qed

lemma PortMapping_in_range: "in_int64 (PortMapping d cfg)"
  by (cases "atoi (port_digits d)") (simp_all add: PortMapping_def, simp add: in_int64_def)

lemma NewSSHServer_Inr:
  "NewSSHServer d cfg = Ret (Inr s) \<Longrightarrow>
   srv_device s = d \<and> sshPort s = PortMapping d cfg \<and> sshPort s \<noteq> 0 \<and> srv_cfg s = cfg \<and>
   server s = None \<and> \<not> running s \<and> NewSerialSession d cfg = Ret (session s)"
  by (auto simp: NewSSHServer_def Let_def then_do_eq_Ret split: if_splits)

lemma StartServer_frame:
  "StartServer env disk s = ((r, t), disk') \<Longrightarrow>
   srv_device t = srv_device s \<and> sshPort t = sshPort s \<and> srv_cfg t = srv_cfg s \<and> session t = session s \<and>
   (r = None \<longrightarrow> running t) \<and> (r \<noteq> None \<longrightarrow> t = s)"
  by (auto simp: StartServer_def Let_def split: if_splits prod.splits sum.splits)

lemma StopServer_frame [simp]:
  "srv_device (StopServer s) = srv_device s" "sshPort (StopServer s) = sshPort s"
  "srv_cfg (StopServer s) = srv_cfg s" "\<not> running (StopServer s)"
  by (auto simp: StopServer_def)

lemma StopServer_twice: "StopServer (StopServer s) = StopServer s"
  by (simp add: StopServer_def)

lemma wrap64_cong_mod: "wrap64 a = wrap64 b \<longleftrightarrow> a mod 2 ^ 64 = b mod 2 ^ 64"
proof -
  have "(a + 2 ^ 63) mod 2 ^ 64 = (b + 2 ^ 63) mod 2 ^ 64 \<longleftrightarrow> a mod 2 ^ 64 = b mod 2 ^ 64"
    by (simp add: mod_eq_dvd_iff)
  then show ?thesis by (simp add: wrap64_def)
qed

lemma wrap64_add_inj:
  assumes "wrap64 (b + int n) = wrap64 (b + int m)" and "in_int64 (int n)" and "in_int64 (int m)"
  shows "n = m"
proof -
  have "int n mod 2 ^ 64 = int m mod 2 ^ 64"
    using assms(1) by (simp add: wrap64_cong_mod mod_eq_dvd_iff)
  then show ?thesis using assms(2,3) by (simp add: in_int64_def)
qed

lemma parse_digits_zero: "parse_digits 0 (CHR ''0'' # s) = parse_digits 0 s"
  by (simp add: is_digit_def digit_value_def)

lemma port_digits_dec: "port_digits (nat_dec n) = nat_dec n"
proof -
  have "take 3 (nat_dec n) \<noteq> ''COM''"
  proof
    assume "take 3 (nat_dec n) = ''COM''"
    then have "CHR ''C'' \<in> set (nat_dec n)" by (metis in_set_takeD list.set_intros(1))
    then show False using nat_dec_digits by (fastforce simp: is_digit_def)
  qed
  then show ?thesis by (simp add: port_digits_def)
qed

lemma atoi_leading_zero: "in_int64 (int n) \<Longrightarrow> atoi (CHR ''0'' # nat_dec n) = Some (int n)"
  by (simp add: atoi_def parse_nat_def parse_digits_zero parse_digits_nat_dec del: parse_digits.simps)

lemma atoi_plus: "in_int64 (int n) \<Longrightarrow> atoi (CHR ''+'' # nat_dec n) = Some (int n)"
  by (simp add: atoi_def)

lemma PortMapping_spelling:
  assumes "in_int64 (int n)" and "device \<in> {nat_dec n, ''COM0'' @ nat_dec n, ''COM+'' @ nat_dec n}"
  shows "PortMapping device cfg = PortMapping (''COM'' @ nat_dec n) cfg"
proof -
  have z: "port_digits (''COM0'' @ nat_dec n) = CHR ''0'' # nat_dec n"
       "port_digits (''COM+'' @ nat_dec n) = CHR ''+'' # nat_dec n"
    using port_digits_com [of "CHR ''0'' # nat_dec n"] port_digits_com [of "CHR ''+'' # nat_dec n"]
    by simp_all
  have "atoi (port_digits device) = Some (int n)"
    using assms(2) z atoi_leading_zero [OF assms(1)] atoi_plus [OF assms(1)] atoi_nat_dec [OF assms(1)]
    by (auto simp: port_digits_dec)
  then show ?thesis using PortMapping_com [OF assms(1)] by (simp add: PortMapping_def)
qed

section \<open>Properties\<close>

text \<open>C34. Devices \<open>COM0\<close>, \<open>COM1\<close>, ... get pairwise different SSH ports whatever the base port is, the
  64-bit wrap-around of the addition included.\<close>

theorem com_devices_get_distinct_ports:
  assumes "in_int64 (int n)" and "in_int64 (int m)"
  shows "PortMapping (''COM'' @ nat_dec n) cfg = PortMapping (''COM'' @ nat_dec m) cfg \<longleftrightarrow> n = m"
  using wrap64_add_inj [OF _ assms] by (auto simp only: PortMapping_com [OF assms(1)] PortMapping_com [OF assms(2)])

theorem com_devices_get_distinct_ports_witness:
  "PortMapping (''COM'' @ nat_dec 3) zero_config \<noteq> PortMapping (''COM'' @ nat_dec 12) zero_config"
  using com_devices_get_distinct_ports [of 3 12 zero_config] by (simp add: in_int64_def)

text \<open>Different spellings of one number get one SSH port: \<open>COM3\<close>, \<open>3\<close>, \<open>COM03\<close> and \<open>COM+3\<close>
  are different devices to the rest of the program and share a listener address.\<close>

theorem spellings_share_a_port:
  assumes "in_int64 (int n)" and "device \<in> {nat_dec n, ''COM0'' @ nat_dec n, ''COM+'' @ nat_dec n}"
  shows "PortMapping device cfg = PortMapping (''COM'' @ nat_dec n) cfg"
  using PortMapping_spelling [OF assms] .

theorem spellings_share_a_port_witness:
  "PortMapping ''COM+3'' zero_config = PortMapping ''COM3'' zero_config"
proof -
  have "nat_dec 3 = ''3''" by (simp add: nat_dec.simps digit_char_def)
  then show ?thesis
    using spellings_share_a_port [of 3 "''COM+3''" zero_config] by (simp add: in_int64_def)
qed

text \<open>C35. The host key is stable: once a start of any server got a key, every later start that can
  read the key file gets the same key and leaves the file alone, whatever the generator would
  produce, so clients see one host identity for all ports and across restarts.\<close>

theorem host_key_is_stable:
  assumes "LoadOrGenerateHostKeyPEM env disk = (Inr pemData, disk1)" and "key_read_err env' = None"
  shows "LoadOrGenerateHostKeyPEM env' disk1 = (Inr pemData, disk1) \<and>
    (disk \<noteq> None \<longrightarrow> disk1 = disk)"
  using assms
  by (auto simp: LoadOrGenerateHostKeyPEM_def Let_def split: option.splits sum.splits)

definition plain_keys :: "bytes \<Rightarrow> key_env" where
  "plain_keys k = \<lparr>key_read_err = None, key_generate = Inr k, key_marshal = Inr,
     pem_encode = (\<lambda>b. ''PEM'' @ b), key_save_fail = None\<rparr>"

theorem host_key_is_stable_witness:
  "LoadOrGenerateHostKeyPEM (plain_keys ''b'') (Some ''PEMa'') = (Inr ''PEMa'', Some ''PEMa'')"
  using host_key_is_stable [of "plain_keys ''a''" None "''PEMa''" "Some ''PEMa''" "plain_keys ''b''"]
  by (simp add: plain_keys_def LoadOrGenerateHostKeyPEM_def)

text \<open>A started server listens on the device's port with the host key, and asks for a password
  exactly when the configured authentication type is \<open>password\<close>: every other type, \<open>publickey\<close>
  included, installs no authentication handler at all.\<close>

theorem started_server_settings:
  assumes "StartServer env disk s = ((None, t), disk1)" and "\<not> IsRunning s"
  shows "\<exists>l. server t = Some l \<and> Addr l = CHR '':'' # itoa (Port t) \<and> listening l \<and> IsRunning t \<and>
    disk1 = Some (HostKeyPEM l) \<and> Port t = Port s \<and>
    PasswordHandler l =
      (let a = Auth (SSH (srv_cfg s)) in
       if auth_Type a = ''password'' then Some (\<lambda>p. p = auth_Password a) else None)"
proof -
  obtain pemData where k: "LoadOrGenerateHostKeyPEM env disk = (Inr pemData, disk1)"
    using assms by (auto simp: StartServer_def IsRunning_def Let_def split: prod.splits sum.splits)
  then have "disk1 = Some pemData"
    by (auto simp: LoadOrGenerateHostKeyPEM_def Let_def split: option.splits sum.splits)
  then show ?thesis
    using assms k by (auto simp: StartServer_def IsRunning_def Port_def Let_def)
qed

definition ssh_config :: Config where
  "ssh_config = ApplyDefaults (zero_config\<lparr>SSH := \<lparr>BasePort = 2200,
     Auth = \<lparr>auth_Type = ''password'', auth_Password = ''secret'', auth_PublicKeys = []\<rparr>\<rparr>\<rparr>)"

definition com3_server :: SSHServer where
  "com3_server = (case NewSSHServer ''COM3'' ssh_config of Ret (Inr s) \<Rightarrow> s | _ \<Rightarrow> undefined)"

lemma com3_server_start:
  "StartServer (plain_keys ''a'') None com3_server =
     ((None, com3_server\<lparr>server := Some \<lparr>Addr = '':2203'', HostKeyPEM = ''PEMa'',
        PasswordHandler = Some (\<lambda>p. p = ''secret''), listening = True\<rparr>, running := True\<rparr>),
      Some ''PEMa'')"
  "\<not> IsRunning com3_server" "Port com3_server = 2203"
proof -
  have s: "port_digits ''COM3'' = ''3''" "atoi ''3'' = Some 3"
    by (simp_all add: port_digits_def atoi_def parse_nat_def is_digit_def digit_value_def in_int64_def)
  have c: "SSH ssh_config = \<lparr>BasePort = 2200,
      Auth = \<lparr>auth_Type = ''password'', auth_Password = ''secret'', auth_PublicKeys = []\<rparr>\<rparr>"
    by (simp add: ssh_config_def ApplyDefaults_def applyDefaults_def default_ssh_def default_to_def)
  have "0 \<le> rbc_MaxLines (Ring_Buffer ssh_config)"
    by (simp add: ssh_config_def ApplyDefaults_def applyDefaults_def default_ring_def default_to_def zero_config_def)
  then have n: "sshPort com3_server = 2203 \<and> srv_cfg com3_server = ssh_config \<and> \<not> running com3_server"
    using s c by (simp add: com3_server_def NewSSHServer_def PortMapping_def NewSerialSession_def
        NewRingBuffer_def wrap64_def)
  moreover have "itoa 2203 = ''2203''" by (simp add: itoa_def nat_dec.simps digit_char_def)
  ultimately show "StartServer (plain_keys ''a'') None com3_server =
     ((None, com3_server\<lparr>server := Some \<lparr>Addr = '':2203'', HostKeyPEM = ''PEMa'',
        PasswordHandler = Some (\<lambda>p. p = ''secret''), listening = True\<rparr>, running := True\<rparr>),
      Some ''PEMa'')"
    using c by (simp add: StartServer_def LoadOrGenerateHostKeyPEM_def plain_keys_def Let_def)
  show "\<not> IsRunning com3_server" "Port com3_server = 2203"
    using n by (simp_all add: IsRunning_def Port_def)
qed

theorem started_server_settings_witness:
  "\<exists>t l. StartServer (plain_keys ''a'') None com3_server = ((None, t), Some ''PEMa'') \<and> server t = Some l \<and>
     IsRunning t \<and> listening l \<and> HostKeyPEM l = ''PEMa''"
  using started_server_settings [OF com3_server_start(1,2)] com3_server_start(1) by auto

end
