(* ===== verification/PortManager.thy ===== *)
theory PortManager
  imports SshServer Recorder "HOL-Library.AList"
begin

text \<open>
  \<open>internal/core/portmanager.go\<close>: the table of SSH servers and file recorders, one per device. Every
  operation holds the manager's lock from beginning to end, so each is one function on the
  state. The two Go maps are association lists; Go iterates a map in any order, and no lemma below
  depends on the order.

  A recorder is shared between the manager and the session that writes to it, so recorders live in a
  store (\<open>rec_objs\<close>) under the numbers both refer to. \<open>host_key\<close> is the key file on disk, and
  \<open>retired\<close> lists the servers the manager has stopped and dropped.
\<close>

section \<open>State\<close>

record PortManager =
  pm_cfg :: Config
  servers :: "(string \<times> SSHServer) list"
  recorders :: "(string \<times> nat) list"
  rec_objs :: "nat \<Rightarrow> FileRecorder option"
  next_rec :: nat
  host_key :: "bytes option"
  retired :: "SSHServer list"

text \<open>What the environment answers when servers start: the key functions, and per device the recorder's files.\<close>

record start_env =
  keys :: key_env
  rec_files :: "string \<Rightarrow> open_env"

definition NewPortManager :: "Config \<Rightarrow> bytes option \<Rightarrow> PortManager" where
  "NewPortManager cfg key =
     \<lparr>pm_cfg = cfg, servers = [], recorders = [], rec_objs = (\<lambda>_. None), next_rec = 0,
      host_key = key, retired = []\<rparr>"

section \<open>AutoStart\<close>

text \<open>The recorder part of the loop body, for a server that has started.\<close>

definition attach_recorder :: "start_env \<Rightarrow> string \<Rightarrow> SSHServer \<Rightarrow> PortManager \<Rightarrow> PortManager" where
  "attach_recorder env device srv pm =
     (let fr = FileRecording (pm_cfg pm) in
      case NewFileRecorder device (fr_OutputDir fr) (fr_MaxSizeMB fr) (fr_TrimSizeMB fr)
          (rec_files env device) of
        Inl e \<Rightarrow> pm\<lparr>servers := AList.update device srv (servers pm)\<rparr>
      | Inr rec \<Rightarrow>
          (let h = next_rec pm in
           pm\<lparr>servers := AList.update device (srv\<lparr>session := SetRecorder h (session srv)\<rparr>) (servers pm),
              recorders := AList.update device h (recorders pm),
              rec_objs := (rec_objs pm)(h \<mapsto> rec), next_rec := Suc h\<rparr>))"

definition auto_port :: "start_env \<Rightarrow> string \<Rightarrow> PortManager \<Rightarrow> PortManager outcome" where
  "auto_port env device pm =
     (if map_of (servers pm) device \<noteq> None then Ret pm
      else then_do (NewSSHServer device (pm_cfg pm)) (\<lambda>created.
        (case created of
           Inl e \<Rightarrow> Ret pm
         | Inr srv \<Rightarrow>
             (let ((err, srv'), key) = StartServer (keys env) (host_key pm) srv;
                  pm' = pm\<lparr>host_key := key\<rparr>
              in Ret (if err \<noteq> None then pm' else attach_recorder env device srv' pm')))))"

fun auto_ports :: "start_env \<Rightarrow> PortConfig list \<Rightarrow> PortManager \<Rightarrow> PortManager outcome" where
  "auto_ports env [] pm = Ret pm"
| "auto_ports env (p # ps) pm = then_do (auto_port env (pc_Device p) pm) (auto_ports env ps)"

definition AutoStart :: "start_env \<Rightarrow> PortManager \<Rightarrow> PortManager outcome" where
  "AutoStart env pm = auto_ports env (Ports (pm_cfg pm)) pm"

section \<open>Queries\<close>

record Mapping =
  serial_port :: string
  ssh_port :: int
  map_connected :: bool

definition mapping_of :: "SSHServer \<Rightarrow> Mapping" where
  "mapping_of srv =
     \<lparr>serial_port = Device srv, ssh_port = Port srv, map_connected = IsConnected (session srv)\<rparr>"

definition Mappings :: "PortManager \<Rightarrow> Mapping list" where
  "Mappings pm = map (\<lambda>(_, srv). mapping_of srv) (servers pm)"

definition GetServer :: "string \<Rightarrow> PortManager \<Rightarrow> SSHServer option" where
  "GetServer device pm = map_of (servers pm) device"

section \<open>AddMapping, RemoveMapping, Shutdown\<close>

definition AddMapping ::
  "start_env \<Rightarrow> string \<Rightarrow> PortManager \<Rightarrow> ((error + SSHServer) \<times> PortManager) outcome" where
  "AddMapping env device pm =
     (if map_of (servers pm) device \<noteq> None
      then Ret (Inl (''mapping already exists for '' @ device), pm)
      else then_do (NewSSHServer device (pm_cfg pm)) (\<lambda>created.
        (case created of
           Inl e \<Rightarrow> Ret (Inl e, pm)
         | Inr srv \<Rightarrow>
             (let ((err, srv'), key) = StartServer (keys env) (host_key pm) srv;
                  pm' = pm\<lparr>host_key := key\<rparr>
              in Ret (case err of
                        Some e \<Rightarrow> (Inl e, pm')
                      | None \<Rightarrow> (Inr srv', pm'\<lparr>servers := AList.update device srv' (servers pm')\<rparr>))))))"

definition RemoveMapping :: "string \<Rightarrow> PortManager \<Rightarrow> error option \<times> PortManager" where
  "RemoveMapping device pm =
     (case map_of (servers pm) device of
        None \<Rightarrow> (Some (''no mapping for '' @ device), pm)
      | Some srv \<Rightarrow>
          (None, pm\<lparr>servers := AList.delete device (servers pm), retired := StopServer srv # retired pm\<rparr>))"

fun stop_recorders :: "nat list \<Rightarrow> (nat \<Rightarrow> FileRecorder option) \<Rightarrow> nat \<Rightarrow> FileRecorder option" where
  "stop_recorders [] objs = objs"
| "stop_recorders (h # hs) objs = stop_recorders hs (objs(h := map_option Stop (objs h)))"

definition Shutdown :: "PortManager \<Rightarrow> PortManager" where
  "Shutdown pm =
     pm\<lparr>rec_objs := stop_recorders (map snd (recorders pm)) (rec_objs pm), recorders := [],
        retired := map (\<lambda>(_, srv). StopServer srv) (servers pm) @ retired pm, servers := []\<rparr>"

section \<open>The interface the HTTP API and the SSH clients use\<close>

text \<open>
  A registry: a lookup, an operation that adds and one that removes. Adding either returns
  the value that a lookup then finds, or an error and leaves every lookup as it was; a second
  add under a key fails; removing succeeds exactly on keys that are present.
\<close>

datatype 'key reg_op = Add 'key | Remove 'key

locale registry =
  fixes lookup :: "'k \<Rightarrow> 't \<Rightarrow> 'v option"
    and add :: "'k \<Rightarrow> 't \<Rightarrow> ((error + 'v) \<times> 't) outcome"
    and remove :: "'k \<Rightarrow> 't \<Rightarrow> error option \<times> 't"
    and ok :: "'t \<Rightarrow> bool"
  assumes add_returns: "ok t \<Longrightarrow> \<exists>r t'. add k t = Ret (r, t') \<and> ok t'"
    and add_Inr: "ok t \<Longrightarrow> add k t = Ret (Inr v, t') \<Longrightarrow> lookup k t = None \<and> lookup k t' = Some v"
    and add_Inl: "ok t \<Longrightarrow> add k t = Ret (Inl e, t') \<Longrightarrow> lookup k t' = lookup k t"
    and add_other: "ok t \<Longrightarrow> add k t = Ret (r, t') \<Longrightarrow> j \<noteq> k \<Longrightarrow> lookup j t' = lookup j t"
    and remove_ok: "ok t \<Longrightarrow> remove k t = (r', t') \<Longrightarrow> ok t' \<and> (r' = None \<longleftrightarrow> lookup k t \<noteq> None)"
    and remove_lookup: "ok t \<Longrightarrow> remove k t = (r', t') \<Longrightarrow> lookup j t' = (if j = k then None else lookup j t)"
begin

text \<open>A run of operations with, per operation, whether it succeeded.\<close>

primrec run_all :: "'k reg_op list \<Rightarrow> 't \<Rightarrow> (bool list \<times> 't) outcome" where
  "run_all [] t = Ret ([], t)"
| "run_all (x # os) t =
     (case x of
        Add k \<Rightarrow>
          then_do (add k t) (\<lambda>(r, t'). then_do (run_all os t') (\<lambda>(bs, u). Ret ((\<not> isl r) # bs, u)))
      | Remove k \<Rightarrow>
          (let (r, t') = remove k t in then_do (run_all os t') (\<lambda>(bs, u). Ret ((r = None) # bs, u))))"

text \<open>The set of keys a client expects from the results alone.\<close>

fun expected :: "'k reg_op list \<Rightarrow> bool list \<Rightarrow> 'k set \<Rightarrow> 'k set" where
  "expected (Add k # os) (b # bs) ks = expected os bs (if b then insert k ks else ks)"
| "expected (Remove k # os) (b # bs) ks = expected os bs (ks - {k})"
| "expected _ _ ks = ks"

definition present :: "'t \<Rightarrow> 'k set" where
  "present t = {k. lookup k t \<noteq> None}"

lemma present_add:
  assumes "ok t" and "add k t = Ret (r, t')"
  shows "present t' = (if \<not> isl r then insert k (present t) else present t)"
proof -
  have "j \<in> present t' \<longleftrightarrow> j \<in> present t" if "j \<noteq> k" for j
    using add_other [OF assms that] by (simp add: present_def)
  moreover have "k \<in> present t' \<longleftrightarrow> \<not> isl r \<or> k \<in> present t"
    using assms add_Inr add_Inl by (cases r) (auto simp: present_def)
  ultimately show ?thesis by (intro set_eqI) (metis insert_iff)
qed

lemma present_remove:
  assumes "ok t" and "remove k t = (r, t')"
  shows "present t' = present t - {k}"
  using remove_lookup [OF assms] by (auto simp: present_def)

lemma run_all_expected:
  "ok t \<Longrightarrow> \<exists>bs u. run_all os t = Ret (bs, u) \<and> ok u \<and> present u = expected os bs (present t)"
proof (induction os arbitrary: t)
  case Nil
  then show ?case by simp
next
  case (Cons op os)
  show ?case
  proof (cases op)
    case (Add k)
    obtain r t' where a: "add k t = Ret (r, t')" "ok t'" using add_returns [OF Cons.prems] by blast
    obtain bs u where "run_all os t' = Ret (bs, u)" "ok u" "present u = expected os bs (present t')"
      using Cons.IH [OF a(2)] by blast
    then show ?thesis using a Add present_add [OF Cons.prems a(1)] by simp
  next
    case (Remove k)
    obtain r t' where a: "remove k t = (r, t')" by fastforce
    obtain bs u where "run_all os t' = Ret (bs, u)" "ok u" "present u = expected os bs (present t')"
      using Cons.IH remove_ok [OF Cons.prems a] by blast
    then show ?thesis using a Remove present_remove [OF Cons.prems a] by simp
  qed
qed

lemma remove_then_add:
  assumes "ok t" and "remove k t = (None, t1)" and "add k t1 = Ret (Inr v, t2)"
  shows "lookup k t2 = Some v \<and> (\<forall>j. j \<noteq> k \<longrightarrow> lookup j t2 = lookup j t)"
  using assms remove_ok [OF assms(1,2)] remove_lookup [OF assms(1,2)] add_Inr add_other by fastforce

end

section \<open>The invariant of the table\<close>

definition serves :: "Config \<Rightarrow> string \<Rightarrow> SSHServer \<Rightarrow> bool" where
  "serves cfg device srv \<longleftrightarrow> srv_device srv = device \<and> running srv \<and> srv_cfg srv = cfg \<and>
     sshPort srv = PortMapping device cfg \<and> sshPort srv \<noteq> 0"

definition pm_ok :: "PortManager \<Rightarrow> bool" where
  "pm_ok pm \<longleftrightarrow> 0 \<le> rbc_MaxLines (Ring_Buffer (pm_cfg pm)) \<and> distinct (map fst (servers pm)) \<and>
     (\<forall>(d, s) \<in> set (servers pm). serves (pm_cfg pm) d s) \<and>
     (\<forall>s \<in> set (retired pm). \<not> running s) \<and>
     distinct (map fst (recorders pm)) \<and>
     (\<forall>(d, h) \<in> set (recorders pm). h < next_rec pm \<and>
        (\<exists>r. rec_objs pm h = Some r \<and> rec_device r = d)) \<and>
     (\<forall>h. next_rec pm \<le> h \<longrightarrow> rec_objs pm h = None)"

lemma update_set: "p \<in> set (AList.update k v xs) \<Longrightarrow> p = (k, v) \<or> p \<in> set xs"
  by (induction xs) (auto split: if_splits)

lemma delete_set: "p \<in> set (AList.delete k xs) \<Longrightarrow> p \<in> set xs \<and> fst p \<noteq> k"
  by (auto simp: AList.delete_eq)

lemma NewSSHServer_returns:
  assumes "0 \<le> rbc_MaxLines (Ring_Buffer cfg)"
  shows "\<exists>r. NewSSHServer d cfg = Ret r \<and> (PortMapping d cfg = 0 \<longleftrightarrow> isl r)"
  using assms by (auto simp: NewSSHServer_def NewSerialSession_def NewRingBuffer_def Let_def)

lemma NewSerialSession_fresh:
  "NewSerialSession d cfg = Ret s \<Longrightarrow> connected s = False \<and> sess_recorder s = None"
  by (auto simp: NewSerialSession_def then_do_eq_Ret)

lemma started_serves:
  assumes "NewSSHServer d cfg = Ret (Inr srv)" and "StartServer env key srv = ((None, srv'), key')"
  shows "serves cfg d srv'" "IsConnected (session srv') = False" "sess_recorder (session srv') = None"
  using NewSSHServer_Inr [OF assms(1)] StartServer_frame [OF assms(2)]
    NewSerialSession_fresh [of d cfg "session srv"]
  by (auto simp: serves_def IsConnected_def)

lemma pm_ok_key [simp]: "pm_ok (pm\<lparr>host_key := k\<rparr>) = pm_ok pm"
  by (simp add: pm_ok_def)

lemma pm_ok_insert:
  assumes "pm_ok pm" and "serves (pm_cfg pm) d srv"
  shows "pm_ok (pm\<lparr>servers := AList.update d srv (servers pm)\<rparr>)"
  using assms by (auto simp: pm_ok_def distinct_update dest!: update_set)

definition key_fails :: "start_env \<Rightarrow> PortManager \<Rightarrow> bool" where
  "key_fails env pm \<longleftrightarrow> isl (fst (LoadOrGenerateHostKeyPEM (keys env) (host_key pm)))"

lemma StartServer_fails:
  "\<not> running srv \<Longrightarrow> StartServer (keys env) (host_key pm) srv = ((err, srv'), key') \<Longrightarrow>
   err \<noteq> None \<longleftrightarrow> key_fails env pm"
  by (auto simp: StartServer_def key_fails_def Let_def split: prod.splits sum.splits)

lemma AddMapping_cases:
  assumes "pm_ok pm"
  obtains (exists) srv where "GetServer d pm = Some srv"
      "AddMapping env d pm = Ret (Inl (''mapping already exists for '' @ d), pm)"
  | (no_port) e where "GetServer d pm = None" "PortMapping d (pm_cfg pm) = 0"
      "AddMapping env d pm = Ret (Inl e, pm)"
  | (no_key) e key' where "GetServer d pm = None" "key_fails env pm"
      "AddMapping env d pm = Ret (Inl e, pm\<lparr>host_key := key'\<rparr>)"
  | (added) srv key' where "GetServer d pm = None" "serves (pm_cfg pm) d srv"
      "PortMapping d (pm_cfg pm) \<noteq> 0" "\<not> key_fails env pm"
      "\<not> IsConnected (session srv)" "sess_recorder (session srv) = None"
      "AddMapping env d pm =
         Ret (Inr srv, pm\<lparr>host_key := key', servers := AList.update d srv (servers pm)\<rparr>)"
proof (cases "map_of (servers pm) d")
  case (Some srv)
  then show ?thesis using exists by (auto simp: GetServer_def AddMapping_def)
next
  case None
  then have g: "GetServer d pm = None" by (simp add: GetServer_def)
  obtain r where r: "NewSSHServer d (pm_cfg pm) = Ret r" "PortMapping d (pm_cfg pm) = 0 \<longleftrightarrow> isl r"
    using NewSSHServer_returns assms by (metis pm_ok_def)
  show ?thesis
  proof (cases r)
    case (Inl e)
    then show ?thesis using no_port g r None by (simp add: AddMapping_def)
  next
    case (Inr srv)
    obtain err srv' key' where s: "StartServer (keys env) (host_key pm) srv = ((err, srv'), key')"
      by (metis prod.exhaust)
    have k: "err \<noteq> None \<longleftrightarrow> key_fails env pm"
      using StartServer_fails [OF _ s] NewSSHServer_Inr r(1) Inr by blast
    show ?thesis
    proof (cases err)
      case None
      then show ?thesis
        using added [of srv' key'] g s r Inr k \<open>map_of (servers pm) d = None\<close>
          started_serves [of d "pm_cfg pm" srv "keys env" "host_key pm" srv' key']
        by (simp add: AddMapping_def)
    next
      case (Some e)
      then show ?thesis
        using no_key [of e key'] g s r Inr k \<open>map_of (servers pm) d = None\<close> by (simp add: AddMapping_def)
    qed
  qed
qed

lemma AddMapping_ok:
  assumes "pm_ok pm"
  shows "\<exists>r pm'. AddMapping env d pm = Ret (r, pm') \<and> pm_ok pm' \<and> pm_cfg pm' = pm_cfg pm \<and>
    rec_objs pm' = rec_objs pm \<and> recorders pm' = recorders pm \<and> next_rec pm' = next_rec pm \<and>
    retired pm' = retired pm \<and> (\<forall>j. j \<noteq> d \<longrightarrow> GetServer j pm' = GetServer j pm) \<and>
    (case r of Inl e \<Rightarrow> GetServer d pm' = GetServer d pm
     | Inr srv \<Rightarrow> GetServer d pm = None \<and> GetServer d pm' = Some srv)"
  using assms
proof (cases rule: AddMapping_cases [of pm d env])
  case (added srv key')
  then have "pm_ok (pm\<lparr>host_key := key', servers := AList.update d srv (servers pm)\<rparr>)"
    using assms pm_ok_insert [of "pm\<lparr>host_key := key'\<rparr>" d srv] by simp
  then show ?thesis using added by (simp add: GetServer_def update_conv')
qed (use assms in \<open>auto simp: GetServer_def\<close>)

lemma RemoveMapping_ok:
  assumes "pm_ok pm" and "RemoveMapping d pm = (r, pm')"
  shows "pm_ok pm' \<and> (r = None \<longleftrightarrow> GetServer d pm \<noteq> None) \<and>
    GetServer j pm' = (if j = d then None else GetServer j pm)"
  using assms
  by (auto simp: RemoveMapping_def GetServer_def delete_conv' pm_ok_def distinct_delete
      dest!: delete_set split: option.splits)

interpretation table: registry GetServer "AddMapping env" RemoveMapping pm_ok
proof
  fix k t
  assume "pm_ok t"
  show "\<exists>r t'. AddMapping env k t = Ret (r, t') \<and> pm_ok t'"
    using AddMapping_ok [OF \<open>pm_ok t\<close>, of env k] by blast
next
  fix k t v t'
  assume "pm_ok t" and "AddMapping env k t = Ret (Inr v, t')"
  then show "GetServer k t = None \<and> GetServer k t' = Some v"
    using AddMapping_ok [of t env k] by auto
next
  fix k t e t'
  assume "pm_ok t" and "AddMapping env k t = Ret (Inl e, t')"
  then show "GetServer k t' = GetServer k t"
    using AddMapping_ok [of t env k] by auto
next
  fix k t r t' j
  assume "pm_ok t" and "AddMapping env k t = Ret (r, t')" and "j \<noteq> k"
  then show "GetServer j t' = GetServer j t"
    using AddMapping_ok [of t env k] by auto
qed (use RemoveMapping_ok in blast)+

section \<open>AutoStart\<close>

text \<open>The recorder of a mapped device, or its absence when its file could not be opened.\<close>

definition attached :: "start_env \<Rightarrow> PortManager \<Rightarrow> string \<Rightarrow> SSHServer \<Rightarrow> bool" where
  "attached env pm d srv \<longleftrightarrow>
     (case NewFileRecorder d (fr_OutputDir (FileRecording (pm_cfg pm))) (fr_MaxSizeMB (FileRecording (pm_cfg pm)))
         (fr_TrimSizeMB (FileRecording (pm_cfg pm))) (rec_files env d) of
        Inl e \<Rightarrow> sess_recorder (session srv) = None
      | Inr rec \<Rightarrow> (case sess_recorder (session srv) of
            None \<Rightarrow> False
          | Some h \<Rightarrow> rec_objs pm h = Some rec \<and> map_of (recorders pm) d = Some h))"

text \<open>No recorder is left running without an entry in the table.\<close>

definition tracked :: "PortManager \<Rightarrow> bool" where
  "tracked pm \<longleftrightarrow>
     (\<forall>h r. rec_objs pm h = Some r \<longrightarrow> stopped r \<or> h \<in> snd ` set (recorders pm))"

definition auto_inv :: "start_env \<Rightarrow> PortManager \<Rightarrow> bool" where
  "auto_inv env pm \<longleftrightarrow> pm_ok pm \<and> \<not> key_fails env pm \<and> tracked pm \<and>
     fst ` set (recorders pm) \<subseteq> fst ` set (servers pm) \<and>
     (\<forall>d srv. GetServer d pm = Some srv \<longrightarrow> attached env pm d srv)"

lemma key_stays:
  assumes "StartServer (keys env) (host_key pm) srv = ((None, srv'), key')" and "\<not> running srv"
  shows "\<not> key_fails env (pm\<lparr>host_key := key'\<rparr>)"
proof -
  obtain k where "LoadOrGenerateHostKeyPEM (keys env) (host_key pm) = (Inr k, key')"
    using assms by (auto simp: StartServer_def Let_def split: prod.splits sum.splits)
  then have "key_read_err (keys env) = None \<and> key' = Some k"
    by (auto simp: LoadOrGenerateHostKeyPEM_def Let_def split: option.splits sum.splits)
  then show ?thesis by (simp add: key_fails_def LoadOrGenerateHostKeyPEM_def)
qed

lemma attached_frame:
  assumes "attached env pm d srv" and "pm_cfg pm' = pm_cfg pm"
    and "\<And>h. map_of (recorders pm) d = Some h \<Longrightarrow>
      map_of (recorders pm') d = Some h \<and> rec_objs pm' h = rec_objs pm h"
  shows "attached env pm' d srv"
  using assms by (auto simp: attached_def split: sum.splits option.splits)

lemma map_of_NoneD: "map_of xs k = None \<Longrightarrow> k \<notin> fst ` set xs"
  by (simp add: map_of_eq_None_iff)

lemma update_new: "k \<notin> fst ` set xs \<Longrightarrow> AList.update k v xs = xs @ [(k, v)]"
  by (induction xs) auto

lemma pm_ok_new_recorder:
  assumes ok: "pm_ok pm" and d: "rec_device rec = d" "d \<notin> fst ` set (recorders pm)"
  shows "pm_ok (pm\<lparr>recorders := recorders pm @ [(d, next_rec pm)],
    rec_objs := (rec_objs pm)(next_rec pm \<mapsto> rec), next_rec := Suc (next_rec pm)\<rparr>)"
proof -
  have "h < Suc (next_rec pm) \<and> h \<noteq> next_rec pm" if "(i, h) \<in> set (recorders pm)" for i h
    using ok that by (fastforce simp: pm_ok_def)
  then show ?thesis using ok d by (fastforce simp: pm_ok_def)
qed

lemma attach_recorder_auto:
  assumes i: "auto_inv env pm" and n: "GetServer d pm = None" and s: "serves (pm_cfg pm) d srv"
    and r: "sess_recorder (session srv) = None"
  shows "auto_inv env (attach_recorder env d srv pm)" (is "auto_inv env ?t")
    and "pm_cfg (attach_recorder env d srv pm) = pm_cfg pm"
    and "GetServer j (attach_recorder env d srv pm) \<noteq> None \<longleftrightarrow> j = d \<or> GetServer j pm \<noteq> None"
proof -
  let ?fr = "FileRecording (pm_cfg pm)"
  let ?new = "NewFileRecorder d (fr_OutputDir ?fr) (fr_MaxSizeMB ?fr) (fr_TrimSizeMB ?fr) (rec_files env d)"
  show c: "pm_cfg ?t = pm_cfg pm"
    and "GetServer j ?t \<noteq> None \<longleftrightarrow> j = d \<or> GetServer j pm \<noteq> None"
    by (auto simp: attach_recorder_def Let_def GetServer_def update_conv' split: sum.splits)
  have fresh: "d \<notin> fst ` set (recorders pm)"
    using i map_of_NoneD [of "servers pm" d] n by (auto simp only: auto_inv_def GetServer_def)
  show "auto_inv env ?t"
  proof (cases ?new)
    case (Inl e)
    then have t: "?t = pm\<lparr>servers := AList.update d srv (servers pm)\<rparr>" by (simp add: attach_recorder_def)
    have "pm_ok ?t" using i s pm_ok_insert t by (simp add: auto_inv_def)
    moreover have "attached env ?t j v" if "GetServer j ?t = Some v" for j v
      using that t i Inl r attached_frame [of env pm j v ?t]
      by (cases "j = d") (auto simp: auto_inv_def GetServer_def update_conv' attached_def)
    ultimately show ?thesis
      using i t by (auto simp: auto_inv_def tracked_def key_fails_def dom_update)
  next
    case (Inr rec)
    let ?h = "next_rec pm" and ?srv = "srv\<lparr>session := SetRecorder (next_rec pm) (session srv)\<rparr>"
    have t: "?t = pm\<lparr>servers := AList.update d ?srv (servers pm), recorders := recorders pm @ [(d, ?h)],
        rec_objs := (rec_objs pm)(?h \<mapsto> rec), next_rec := Suc ?h\<rparr>"
      using Inr fresh by (simp add: attach_recorder_def Let_def update_new)
    have "rec_device rec = d" using Inr by (auto simp: NewFileRecorder_def split: option.splits)
    moreover have "pm_ok (pm\<lparr>servers := AList.update d ?srv (servers pm)\<rparr>)"
      by (rule pm_ok_insert) (use i s in \<open>simp_all add: auto_inv_def serves_def\<close>)
    ultimately have "pm_ok ?t"
      using pm_ok_new_recorder [of "pm\<lparr>servers := AList.update d ?srv (servers pm)\<rparr>" rec d] fresh t by simp
    moreover have "attached env ?t j v" if "GetServer j ?t = Some v" for j v
    proof (cases "j = d")
      case True
      then show ?thesis
        using that t Inr fresh [folded map_of_eq_None_iff]
        by (auto simp: GetServer_def update_conv' attached_def SetRecorder_def map_add_def)
    next
      case False
      have "h < next_rec pm" if "map_of (recorders pm) j = Some h" for h
        using i map_of_SomeD [OF that] by (auto simp: auto_inv_def pm_ok_def)
      then show ?thesis
        using that t i False attached_frame [of env pm j v ?t]
        by (force simp: auto_inv_def GetServer_def update_conv' map_add_def)
    qed
    moreover have "tracked ?t"
      using i by (auto simp: t auto_inv_def tracked_def)
    ultimately show ?thesis
      using i t by (auto simp: auto_inv_def key_fails_def dom_update)
  qed
qed

lemma attached_key [simp]: "attached env (pm\<lparr>host_key := k\<rparr>) d srv = attached env pm d srv"
  by (simp add: attached_def cong: sum.case_cong option.case_cong)

lemma auto_inv_key:
  "auto_inv env pm \<Longrightarrow> \<not> key_fails env (pm\<lparr>host_key := k\<rparr>) \<Longrightarrow> auto_inv env (pm\<lparr>host_key := k\<rparr>)"
  by (auto simp: auto_inv_def tracked_def GetServer_def)

lemma auto_port_starts:
  assumes i: "auto_inv env pm"
  shows "\<exists>pm'. auto_port env d pm = Ret pm' \<and> auto_inv env pm' \<and> pm_cfg pm' = pm_cfg pm \<and>
    (\<forall>j. GetServer j pm' \<noteq> None \<longleftrightarrow> GetServer j pm \<noteq> None \<or> j = d \<and> PortMapping d (pm_cfg pm) \<noteq> 0)"
proof (cases "GetServer d pm")
  case (Some srv)
  then have "serves (pm_cfg pm) d srv"
    using i map_of_SomeD by (fastforce simp: auto_inv_def pm_ok_def GetServer_def)
  then show ?thesis using Some i by (auto simp: auto_port_def GetServer_def)
next
  case None
  obtain r where r: "NewSSHServer d (pm_cfg pm) = Ret r" "PortMapping d (pm_cfg pm) = 0 \<longleftrightarrow> isl r"
    using NewSSHServer_returns i by (metis auto_inv_def pm_ok_def)
  show ?thesis
  proof (cases r)
    case (Inl e)
    then show ?thesis using r i None by (auto simp: auto_port_def GetServer_def)
  next
    case (Inr srv)
    obtain err srv' key' where s: "StartServer (keys env) (host_key pm) srv = ((err, srv'), key')"
      by (metis prod.exhaust)
    have nr: "\<not> running srv" using NewSSHServer_Inr r(1) Inr by blast
    have e: "err = None" using StartServer_fails [OF nr s] i by (auto simp: auto_inv_def)
    let ?p = "pm\<lparr>host_key := key'\<rparr>"
    have p: "auto_inv env ?p" using auto_inv_key [OF i key_stays] s nr e by blast
    have a: "auto_port env d pm = Ret (attach_recorder env d srv' ?p)"
      using None r(1) Inr s e by (simp add: auto_port_def GetServer_def)
    have "GetServer d ?p = None" "serves (pm_cfg ?p) d srv'" "sess_recorder (session srv') = None"
      using None started_serves r(1) Inr s e by (auto simp: GetServer_def)
    note f = attach_recorder_auto [OF p this]
    show ?thesis using a f r Inr by (auto simp: GetServer_def)
  qed
qed

lemma auto_ports_start:
  "auto_inv env pm \<Longrightarrow> \<exists>pm'. auto_ports env ps pm = Ret pm' \<and> auto_inv env pm' \<and> pm_cfg pm' = pm_cfg pm \<and>
    (\<forall>j. GetServer j pm' \<noteq> None \<longleftrightarrow>
       GetServer j pm \<noteq> None \<or> j \<in> pc_Device ` set ps \<and> PortMapping j (pm_cfg pm) \<noteq> 0)"
proof (induction ps arbitrary: pm)
  case Nil
  then show ?case by simp
next
  case (Cons p ps)
  obtain pm1 where 1: "auto_port env (pc_Device p) pm = Ret pm1" "auto_inv env pm1" "pm_cfg pm1 = pm_cfg pm"
      "\<And>j. GetServer j pm1 \<noteq> None \<longleftrightarrow>
         GetServer j pm \<noteq> None \<or> j = pc_Device p \<and> PortMapping (pc_Device p) (pm_cfg pm) \<noteq> 0"
    using auto_port_starts [OF Cons.prems, of "pc_Device p"] by blast
  show ?case using Cons.IH [OF 1(2)] 1 by auto
qed

lemma NewPortManager_auto:
  assumes "0 \<le> rbc_MaxLines (Ring_Buffer cfg)" and "\<not> key_fails env (NewPortManager cfg key)"
  shows "auto_inv env (NewPortManager cfg key)"
  using assms by (simp add: auto_inv_def pm_ok_def NewPortManager_def tracked_def GetServer_def)

section \<open>Shutdown\<close>

lemma stop_recorders_eq:
  "stop_recorders hs objs h = (if h \<in> set hs then map_option Stop (objs h) else objs h)"
proof (induction hs arbitrary: objs)
  case (Cons a hs)
  have "map_option Stop (map_option Stop x) = map_option Stop x" for x
    by (cases x) (auto simp: Stop_def)
  then show ?case using Cons by auto
qed simp

lemma AddMapping_keeps:
  assumes "pm_ok pm" and "AddMapping env d pm = Ret (r, pm')"
  shows "pm_ok pm'" "rec_objs pm' = rec_objs pm" "recorders pm' = recorders pm"
proof -
  obtain r0 p0 where "AddMapping env d pm = Ret (r0, p0)" "pm_ok p0" "rec_objs p0 = rec_objs pm"
      "recorders p0 = recorders pm"
    using AddMapping_ok [OF assms(1), of env d] by blast
  then show "pm_ok pm'" "rec_objs pm' = rec_objs pm" "recorders pm' = recorders pm"
    using assms(2) by simp_all
qed

lemma tracked_AddMapping:
  "pm_ok pm \<Longrightarrow> tracked pm \<Longrightarrow> AddMapping env d pm = Ret (r, pm') \<Longrightarrow> tracked pm'"
  by (simp add: tracked_def AddMapping_keeps)

lemma tracked_RemoveMapping: "tracked pm \<Longrightarrow> RemoveMapping d pm = (r, pm') \<Longrightarrow> tracked pm'"
  by (fastforce simp: tracked_def RemoveMapping_def split: option.splits)

lemma stopped_Stop [simp]: "stopped (Stop r)"
  by (simp add: Stop_def)

lemma Shutdown_stops:
  assumes "pm_ok pm" and "tracked pm"
  shows "(\<forall>h r. rec_objs (Shutdown pm) h = Some r \<longrightarrow> stopped r) \<and>
    (\<forall>s \<in> set (retired (Shutdown pm)). \<not> IsRunning s) \<and>
    StopServer ` snd ` set (servers pm) \<subseteq> set (retired (Shutdown pm)) \<and>
    (\<forall>d. GetServer d (Shutdown pm) = None) \<and> Mappings (Shutdown pm) = []"
proof -
  have "stopped r" if "rec_objs (Shutdown pm) h = Some r" for h r
    using that assms(2) by (auto simp: Shutdown_def stop_recorders_eq tracked_def split: if_splits)
  moreover have "\<not> IsRunning s" if "s \<in> set (retired (Shutdown pm))" for s
    using that assms(1) by (auto simp: Shutdown_def pm_ok_def IsRunning_def)
  moreover have "StopServer ` snd ` set (servers pm) \<subseteq> set (retired (Shutdown pm))"
    by (force simp: Shutdown_def)
  ultimately show ?thesis by (simp add: Shutdown_def GetServer_def Mappings_def)
qed

section \<open>Runs\<close>

inductive pm_reach :: "PortManager \<Rightarrow> PortManager \<Rightarrow> bool" for pm0 where
  pm_start: "pm_reach pm0 pm0"
| pm_add: "pm_reach pm0 pm \<Longrightarrow> AddMapping env d pm = Ret (r, pm') \<Longrightarrow> pm_reach pm0 pm'"
| pm_remove: "pm_reach pm0 pm \<Longrightarrow> RemoveMapping d pm = (e, pm') \<Longrightarrow> pm_reach pm0 pm'"

lemma pm_reach_inv: "pm_reach pm0 pm \<Longrightarrow> pm_ok pm0 \<Longrightarrow> tracked pm0 \<Longrightarrow> pm_ok pm \<and> tracked pm"
proof (induction rule: pm_reach.induct)
  case (pm_add pm env d r pm')
  then show ?case
    using AddMapping_keeps(1) tracked_AddMapping by blast
next
  case (pm_remove pm d e pm')
  then show ?case
    using RemoveMapping_ok [of pm d e pm' d] tracked_RemoveMapping [of pm d e pm'] by simp
qed simp

section \<open>Properties\<close>


text \<open>C24. \<open>AddMapping\<close> on a well-formed table never panics and never disturbs another device. It returns a
  running, unconnected server on the device's port exactly when the device is not mapped, has a
  port number, and the host key is available, and then a lookup finds that server; otherwise
  it returns an error and the device's entry is as before.\<close>

theorem AddMapping_behaviour:
  assumes "pm_ok pm"
  shows "\<exists>r pm'. AddMapping env d pm = Ret (r, pm') \<and> pm_ok pm' \<and>
    (\<forall>j. j \<noteq> d \<longrightarrow> GetServer j pm' = GetServer j pm) \<and>
    (isl r \<longleftrightarrow> GetServer d pm \<noteq> None \<or> PortMapping d (pm_cfg pm) = 0 \<or> key_fails env pm) \<and>
    (case r of Inl e \<Rightarrow> GetServer d pm' = GetServer d pm
     | Inr srv \<Rightarrow> GetServer d pm' = Some srv \<and> Device srv = d \<and> Port srv = PortMapping d (pm_cfg pm) \<and>
         IsRunning srv \<and> \<not> IsConnected (session srv))"
  using assms
proof (cases rule: AddMapping_cases [of pm d env])
  case (added srv key')
  then show ?thesis
    using AddMapping_ok [OF assms, of env d]
    by (auto simp: serves_def Device_def Port_def IsRunning_def)
qed (use AddMapping_ok [OF assms, of env d] in \<open>auto simp: GetServer_def\<close>)


text \<open>C17. Shutting down after an automatic start and any sequence of added and removed mappings stops
  everything: every recorder ever created is told to stop, every server ever registered is
  stopped, and the table is empty.\<close>

theorem Shutdown_stops_everything:
  assumes "AutoStart env (NewPortManager cfg key) = Ret pm0" and "0 \<le> rbc_MaxLines (Ring_Buffer cfg)"
    and "\<not> key_fails env (NewPortManager cfg key)" and "pm_reach pm0 pm"
  shows "(\<forall>h r. rec_objs (Shutdown pm) h = Some r \<longrightarrow> stopped r) \<and>
    (\<forall>s \<in> set (retired (Shutdown pm)). \<not> IsRunning s) \<and>
    (\<forall>d s. GetServer d pm = Some s \<longrightarrow> StopServer s \<in> set (retired (Shutdown pm))) \<and>
    Mappings (Shutdown pm) = [] \<and> (\<forall>d. GetServer d (Shutdown pm) = None)"
proof -
  have "auto_inv env pm0"
    using auto_ports_start [OF NewPortManager_auto [OF assms(2,3)], of "Ports cfg"] assms(1)
    by (auto simp: AutoStart_def) (simp add: NewPortManager_def)
  then have "pm_ok pm \<and> tracked pm" using pm_reach_inv [OF assms(4)] by (simp add: auto_inv_def)
  then have "pm_ok pm" "tracked pm" by simp_all
  note f = Shutdown_stops [OF this]
  have "StopServer s \<in> set (retired (Shutdown pm))" if "GetServer d pm = Some s" for d s
    using f map_of_SomeD [OF that [unfolded GetServer_def]] by force
  then show ?thesis using f by blast
qed

text \<open>The table accepts two devices with one SSH port: when \<open>COMn\<close> is mapped, adding \<open>n\<close> (or any
  other unmapped spelling of the number) reports success with the port that is already in use.\<close>

theorem duplicate_port_is_accepted:
  assumes "pm_ok pm" and "in_int64 (int n)" and "GetServer (''COM'' @ nat_dec n) pm = Some s1"
    and "device \<in> {nat_dec n, ''COM0'' @ nat_dec n, ''COM+'' @ nat_dec n}"
    and "GetServer device pm = None" and "\<not> key_fails env pm"
  shows "\<exists>s2 pm'. AddMapping env device pm = Ret (Inr s2, pm') \<and> Port s2 = Port s1 \<and>
    IsRunning s1 \<and> IsRunning s2 \<and> GetServer (''COM'' @ nat_dec n) pm' = Some s1"
proof -
  have ports: "PortMapping device (pm_cfg pm) = PortMapping (''COM'' @ nat_dec n) (pm_cfg pm)"
    using PortMapping_spelling [OF assms(2,4)] .
  have s1: "serves (pm_cfg pm) (''COM'' @ nat_dec n) s1"
    using assms(1) map_of_SomeD [OF assms(3) [unfolded GetServer_def]] by (auto simp: pm_ok_def)
  from assms(1) show ?thesis
  proof (cases rule: AddMapping_cases [of pm device env])
    case (added s2 key')
    have "Port s2 = Port s1 \<and> IsRunning s1 \<and> IsRunning s2"
      using added(2) s1 ports unfolding serves_def Port_def IsRunning_def by metis
    moreover have "''COM'' @ nat_dec n \<noteq> device"
    proof
      assume e: "''COM'' @ nat_dec n = device"
      show False using assms(3,5) unfolding e by simp
    qed
    then have "GetServer (''COM'' @ nat_dec n) (pm\<lparr>host_key := key', servers := AList.update device s2 (servers pm)\<rparr>)
        = Some s1"
      using table.add_other [OF assms(1) added(7)] assms(3) by simp
    ultimately show ?thesis using added(7) by blast
  next
    case (exists srv)
    then show ?thesis using assms(5) by simp
  next
    case (no_port e)
    then show ?thesis using ports s1 by (simp add: serves_def)
  next
    case (no_key e key')
    then show ?thesis using assms(6) by simp
  qed
qed

text \<open>Removing a mapping leaves its recorder running, and adding the device again does not connect
  the new session to any recorder: the port is served but no longer recorded.\<close>

theorem readded_port_is_not_recorded:
  assumes "pm_ok pm" and "map_of (recorders pm) d = Some h" and "RemoveMapping d pm = (None, pm1)"
    and "AddMapping env d pm1 = Ret (Inr srv, pm2)"
  shows "rec_objs pm2 h = rec_objs pm h \<and> map_of (recorders pm2) d = Some h \<and>
    sess_recorder (session srv) = None"
proof -
  have ok: "pm_ok pm1" using RemoveMapping_ok [OF assms(1,3)] by blast
  have "sess_recorder (session srv) = None"
    using ok assms(4) by (cases rule: AddMapping_cases [of pm1 d env]) auto
  moreover have "rec_objs pm1 = rec_objs pm" "recorders pm1 = recorders pm"
    using assms(3) by (auto simp: RemoveMapping_def split: option.splits)
  ultimately show ?thesis using AddMapping_keeps [OF ok assms(4)] assms(2) by simp
qed

section \<open>Witnesses\<close>

definition lab_config :: Config where
  "lab_config = zero_config
     \<lparr>SSH := \<lparr>BasePort = 2200, Auth = \<lparr>auth_Type = ''password'', auth_Password = ''pw'', auth_PublicKeys = []\<rparr>\<rparr>,
      Ports := [\<lparr>pc_Device = ''COM3'', pc_Baudrate = 0\<rparr>, \<lparr>pc_Device = ''ttyUSB0'', pc_Baudrate = 0\<rparr>,
        \<lparr>pc_Device = ''COM3'', pc_Baudrate = 0\<rparr>, \<lparr>pc_Device = ''COM7'', pc_Baudrate = 9600\<rparr>]\<rparr>"

definition lab_env :: start_env where
  "lab_env = \<lparr>keys = plain_keys ''a'', rec_files = (\<lambda>_. empty_dir)\<rparr>"

definition lab :: PortManager where
  "lab = (case AutoStart lab_env (NewPortManager lab_config None) of Ret pm \<Rightarrow> pm
          | Panic m \<Rightarrow> NewPortManager lab_config None)"

lemma lab_facts:
  "0 \<le> rbc_MaxLines (Ring_Buffer lab_config)" "\<not> key_fails lab_env (NewPortManager lab_config None)"
  "map serial_port (Mappings lab) = [''COM3'', ''COM7'']" "map ssh_port (Mappings lab) = [2203, 2207]"
  "map fst (recorders lab) = [''COM3'', ''COM7'']" "pm_cfg lab = lab_config"
  by code_simp+

lemma lab_start: "AutoStart lab_env (NewPortManager lab_config None) = Ret lab" "pm_ok lab"
proof -
  obtain pm where pm: "auto_ports lab_env (Ports lab_config) (NewPortManager lab_config None) = Ret pm"
      and ok: "auto_inv lab_env pm"
    using auto_ports_start [OF NewPortManager_auto [OF lab_facts(1,2)]] by blast
  then show s: "AutoStart lab_env (NewPortManager lab_config None) = Ret lab"
    by (simp add: lab_def AutoStart_def NewPortManager_def)
  have "pm = lab" using s pm by (simp add: AutoStart_def NewPortManager_def)
  then show "pm_ok lab" using ok by (simp add: auto_inv_def)
qed


theorem AddMapping_behaviour_witness:
  "\<exists>r pm'. AddMapping lab_env ''COM9'' lab = Ret (r, pm') \<and> GetServer ''COM3'' pm' = GetServer ''COM3'' lab"
  using AddMapping_behaviour [OF lab_start(2), of lab_env "''COM9''"] by auto


theorem Shutdown_stops_everything_witness:
  "Mappings (Shutdown (snd (RemoveMapping ''COM3'' lab))) = []"
proof -
  have "pm_reach lab (snd (RemoveMapping ''COM3'' lab))"
    by (rule pm_remove [OF pm_start, of "''COM3''" _ "fst (RemoveMapping ''COM3'' lab)"]) simp
  then show ?thesis using Shutdown_stops_everything [OF lab_start(1) lab_facts(1,2)] by blast
qed

theorem duplicate_port_is_accepted_witness:
  "\<exists>s1 s2 pm'. GetServer ''COM3'' lab = Some s1 \<and> AddMapping lab_env ''3'' lab = Ret (Inr s2, pm') \<and>
     Port s2 = Port s1"
proof -
  have n: "nat_dec 3 = ''3''" by (simp add: nat_dec.simps digit_char_def)
  have "\<not> Option.is_none (GetServer ''COM3'' lab)" "Option.is_none (GetServer ''3'' lab)" "\<not> key_fails lab_env lab"
    by code_simp+
  then obtain s1 where "GetServer ''COM3'' lab = Some s1" "GetServer ''3'' lab = None" "\<not> key_fails lab_env lab"
    by (auto simp: Option.is_none_def)
  then show ?thesis
    using duplicate_port_is_accepted [of lab 3 s1 "''3''" lab_env] lab_start(2)
    by (auto simp: n in_int64_def)
qed

theorem readded_port_is_not_recorded_witness:
  "\<exists>pm1 srv pm2. RemoveMapping ''COM3'' lab = (None, pm1) \<and> AddMapping lab_env ''COM3'' pm1 = Ret (Inr srv, pm2) \<and>
     sess_recorder (session srv) = None \<and> map_of (recorders pm2) ''COM3'' = Some 0"
proof -
  have f: "map_of (recorders lab) ''COM3'' = Some 0" "fst (RemoveMapping ''COM3'' lab) = None"
      "(case AddMapping lab_env ''COM3'' (snd (RemoveMapping ''COM3'' lab)) of
          Ret (Inr srv, pm2) \<Rightarrow> True | _ \<Rightarrow> False)"
    by code_simp+
  then obtain srv pm2 where a: "AddMapping lab_env ''COM3'' (snd (RemoveMapping ''COM3'' lab)) = Ret (Inr srv, pm2)"
    by (auto split: outcome.splits sum.splits prod.splits)
  have r: "RemoveMapping ''COM3'' lab = (None, snd (RemoveMapping ''COM3'' lab))"
    using f(2) by (simp add: prod_eq_iff)
  show ?thesis
    using readded_port_is_not_recorded [OF lab_start(2) f(1) r a] r a by blast
qed

end
