(* ===== verification/HttpApi.thy ===== *)
theory HttpApi
  imports PortManager
begin

text \<open>
  \<open>internal/http/server.go\<close> and \<open>internal/http/handlers.go\<close>, with \<open>internal/serial/port.go\<close>: the HTTP API
  over the table of ports. A handler maps a request and the gateway's state to a response and
  the new state; the handlers that talk to a session and wait for its goroutines are two
  functions, one for each side of the wait. \<open>Exec\<close> and \<open>Notify\<close> hold the two remaining handlers.
\<close>

section \<open>Requests, responses, environment\<close>

record Request =
  Method :: string
  Path :: string
  query :: "string \<Rightarrow> string"
  Body :: bytes

text \<open>A JSON object lists its fields in the order of the source; the encoder sorts the keys of a map.\<close>

datatype json =
    JStr string
  | JInt int
  | JBool bool
  | JArr "json list"
  | JObj "(string \<times> json) list"

datatype body = Json json | ConfigJson Config | Text string

record Response =
  code :: int
  content_type :: string
  body :: body

text \<open>A port as the enumerator library reports it.\<close>

record PortDetails =
  pd_Name :: string
  pd_VID :: string
  pd_PID :: string
  pd_Product :: string

text \<open>
  What lies outside: the JSON decoder for a struct with one string field of a given name and for
  a configuration (\<open>None\<close> for a body that does not decode), the encoder of an entry, the time format,
  the enumerator, the serial driver, and what starting a server meets.
\<close>

record http_env =
  decode_field :: "string \<Rightarrow> bytes \<Rightarrow> string option"
  decode_config :: "bytes \<Rightarrow> Config option"
  encode_entry :: "Entry \<Rightarrow> string"
  rfc3339 :: "int \<Rightarrow> string"
  detailed_ports :: "error + PortDetails list"
  driver :: "string \<Rightarrow> Mode \<Rightarrow> error option"
  starting :: start_env

record Gateway =
  gw_cfg :: Config
  gw_pm :: PortManager

definition NewGatewayWithManager :: "Config \<Rightarrow> PortManager \<Rightarrow> Gateway" where
  "NewGatewayWithManager cfg pm = \<lparr>gw_cfg = cfg, gw_pm = pm\<rparr>"

definition writeJSON :: "int \<Rightarrow> json \<Rightarrow> Response" where
  "writeJSON c data = \<lparr>code = c, content_type = ''application/json'', body = Json data\<rparr>"

definition error_json :: "string \<Rightarrow> json" where
  "error_json e = JObj [(''error'', JStr e)]"

definition plain_text :: "string \<Rightarrow> Response" where
  "plain_text t = \<lparr>code = 200, content_type = ''text/plain; charset=utf-8'', body = Text t\<rparr>"

section \<open>Ports\<close>

record PortInfo =
  pi_Device :: string
  pi_Description :: string
  pi_HWID :: string

definition port_info :: "PortDetails \<Rightarrow> PortInfo" where
  "port_info p =
     (let hwid = pd_VID p @ '':'' @ pd_PID p in
      \<lparr>pi_Device = pd_Name p, pi_Description = pd_Product p, pi_HWID = (if hwid = '':'' then '''' else hwid)\<rparr>)"

definition ListPorts :: "http_env \<Rightarrow> error + PortInfo list" where
  "ListPorts env = (case detailed_ports env of Inl e \<Rightarrow> Inl e | Inr ps \<Rightarrow> Inr (map port_info ps))"

definition port_json :: "Gateway \<Rightarrow> PortInfo \<Rightarrow> json" where
  "port_json gw p =
     (let baudrate = override_baudrate (pi_Device p) (Ports (gw_cfg gw)) (sd_Baudrate (Serial_Defaults (gw_cfg gw)));
          status = (case GetServer (pi_Device p) (gw_pm gw) of
              Some srv \<Rightarrow> if IsRunning srv then ''active'' else ''inactive''
            | None \<Rightarrow> ''inactive'')
      in JObj [(''device'', JStr (pi_Device p)), (''description'', JStr (pi_Description p)),
           (''hwid'', JStr (pi_HWID p)), (''baudrate'', JInt baudrate),
           (''ssh_port'', JInt (PortMapping (pi_Device p) (gw_cfg gw))), (''status'', JStr status)])"

definition handleGetPorts :: "http_env \<Rightarrow> Request \<Rightarrow> Gateway \<Rightarrow> Response" where
  "handleGetPorts env r gw =
     (if Method r \<noteq> ''GET'' then writeJSON 405 (error_json ''method not allowed'')
      else (case ListPorts env of
          Inl e \<Rightarrow> writeJSON 500 (error_json e)
        | Inr ports \<Rightarrow> writeJSON 200 (JObj [(''ports'', JArr (map (port_json gw) ports))])))"

section \<open>Mappings\<close>

text \<open>
  The loop looks each listed device up again: \<open>look i\<close> is what \<open>GetServer\<close> answers in round \<open>i\<close>, when
  the table may have changed. A missing server is a nil dereference.
\<close>

fun mappings_json :: "(nat \<Rightarrow> string \<Rightarrow> SSHServer option) \<Rightarrow> nat \<Rightarrow> Mapping list \<Rightarrow> json list outcome" where
  "mappings_json look i [] = Ret []"
| "mappings_json look i (m # ms) =
     (case look i (serial_port m) of
        None \<Rightarrow> Panic ''invalid memory address or nil pointer dereference''
      | Some srv \<Rightarrow>
          then_do (mappings_json look (Suc i) ms) (\<lambda>js. Ret
            (JObj [(''serial_port'', JStr (serial_port m)), (''ssh_port'', JInt (ssh_port m)),
               (''connections'', JInt 0), (''baudrate'', JInt (sess_baudrate (session srv))),
               (''connected'', JBool (IsConnected (session srv)))] # js)))"

definition handleGetMappings :: "(nat \<Rightarrow> string \<Rightarrow> SSHServer option) \<Rightarrow> Gateway \<Rightarrow> Response outcome" where
  "handleGetMappings look gw =
     then_do (mappings_json look 0 (Mappings (gw_pm gw)))
       (\<lambda>js. Ret (writeJSON 200 (JObj [(''mappings'', JArr js)])))"

definition handleCreateMapping :: "http_env \<Rightarrow> Request \<Rightarrow> Gateway \<Rightarrow> (Response \<times> Gateway) outcome" where
  "handleCreateMapping env r gw =
     (case decode_field env ''device'' (Body r) of
        None \<Rightarrow> Ret (writeJSON 400 (error_json ''invalid request body''), gw)
      | Some device \<Rightarrow>
          if device = '''' then Ret (writeJSON 400 (error_json ''device is required''), gw)
          else then_do (AddMapping (starting env) device (gw_pm gw)) (\<lambda>(result, pm).
            Ret (case result of
                Inl e \<Rightarrow>
                  (if contains e ''already exists'' then writeJSON 409 (error_json e)
                   else writeJSON 500 (error_json e), gw\<lparr>gw_pm := pm\<rparr>)
              | Inr srv \<Rightarrow>
                  (writeJSON 201 (JObj [(''serial_port'', JStr device), (''ssh_port'', JInt (Port srv)),
                     (''status'', JStr ''active'')]), gw\<lparr>gw_pm := pm\<rparr>))))"

definition handleMappings :: "http_env \<Rightarrow> (nat \<Rightarrow> string \<Rightarrow> SSHServer option) \<Rightarrow> Request \<Rightarrow> Gateway \<Rightarrow>
    (Response \<times> Gateway) outcome" where
  "handleMappings env look r gw =
     (if Method r = ''GET'' then then_do (handleGetMappings look gw) (\<lambda>resp. Ret (resp, gw))
      else if Method r = ''POST'' then handleCreateMapping env r gw
      else Ret (writeJSON 405 (error_json ''method not allowed''), gw))"

section \<open>The history\<close>

definition handleTail :: "Request \<Rightarrow> SSHServer \<Rightarrow> Response outcome" where
  "handleTail r srv =
     (let l = query r ''lines'';
          lines = (if l = '''' then 200
                   else case atoi l of None \<Rightarrow> 200 | Some n \<Rightarrow> if n > 0 then n else 200)
      in then_do (Tail (ringBuffer (session srv)) lines)
           (\<lambda>entries. Ret (plain_text (join [newline] (map Line entries)))))"

definition log_json :: "SSHServer \<Rightarrow> string \<Rightarrow> string \<Rightarrow> Response" where
  "log_json srv format content =
     writeJSON 200 (JObj [(''device'', JStr (Device srv)), (''format'', JStr format),
       (''content'', JStr content), (''bytes'', JInt (int (length content)))])"

definition handleLog :: "http_env \<Rightarrow> Request \<Rightarrow> SSHServer \<Rightarrow> Response" where
  "handleLog env r srv =
     (let entries = All (ringBuffer (session srv)) in
      if query r ''format'' = ''jsonl''
      then log_json srv ''jsonl'' (join [newline] (map (encode_entry env) entries))
      else log_json srv ''text''
        (join [newline] (map (\<lambda>e. rfc3339 env (TS e) @ '' ['' @ Device srv @ ''] '' @ Line e) entries)))"

section \<open>Configuration\<close>

definition handleConfig :: "http_env \<Rightarrow> Request \<Rightarrow> Gateway \<Rightarrow> Response \<times> Gateway" where
  "handleConfig env r gw =
     (if Method r = ''GET''
      then (\<lparr>code = 200, content_type = ''application/json'', body = ConfigJson (gw_cfg gw)\<rparr>, gw)
      else if Method r = ''PUT'' then
        (case decode_config env (Body r) of
           None \<Rightarrow> (writeJSON 400 (error_json ''invalid config''), gw)
         | Some c \<Rightarrow>
             (let c' = ApplyDefaults c in
              (\<lparr>code = 200, content_type = ''application/json'', body = ConfigJson c'\<rparr>, gw\<lparr>gw_cfg := c'\<rparr>)))
      else (writeJSON 405 (error_json ''method not allowed''), gw))"

section \<open>Writing to a port\<close>

text \<open>
  \<open>begin_write\<close> is the first half of \<open>handleWrite\<close>: an early response, or the data and the session after
  the request was queued (\<open>None\<close> while the queue is full and the handler blocks). \<open>end_write\<close> is the second
  half, from the answer (or the timeout) to the response; \<open>later\<close> is the session half a second after.
\<close>

datatype waited = Answered "error option" | TimedOut

definition begin_write ::
  "http_env \<Rightarrow> Request \<Rightarrow> SSHServer \<Rightarrow> (Response \<times> Session) + (string \<times> Session option)" where
  "begin_write env r srv =
     (let sess = session srv in
      if Method r \<noteq> ''POST'' then Inl (writeJSON 405 (error_json ''method not allowed, use POST''), sess)
      else (case decode_field env ''data'' (Body r) of
          None \<Rightarrow> Inl (writeJSON 400 (error_json ''invalid request body''), sess)
        | Some data \<Rightarrow>
            if data = '''' then Inl (writeJSON 400 (error_json ''data is required''), sess)
            else (let (sess', err) = (if IsConnected sess then (sess, None) else Open (driver env) sess) in
              case err of
                Some e \<Rightarrow> Inl (writeJSON 500 (error_json (''serial open failed: '' @ e)), sess')
              | None \<Rightarrow> Inr (data, submit data sess'))))"

definition end_write :: "string \<Rightarrow> waited \<Rightarrow> Session \<Rightarrow> Response outcome" where
  "end_write data w later =
     (case (case w of Answered e \<Rightarrow> e | TimedOut \<Rightarrow> Some ''write timeout'') of
        Some e \<Rightarrow> Ret (writeJSON 500 (error_json e))
      | None \<Rightarrow>
          then_do (Tail (ringBuffer later) 50) (\<lambda>entries. Ret (writeJSON 200
            (JObj [(''sent'', JStr data), (''output'', JStr (join [newline] (map Line entries)))]))))"

section \<open>One mapping\<close>

text \<open>The write and exec sub-paths wait for the session, so dispatching them is its own result.\<close>

datatype action = Answer Response | StartWrite SSHServer | StartExec SSHServer | StartNotify

definition path_parts :: "string \<Rightarrow> string list" where
  "path_parts path = split_on CHR ''/'' (trim_prefix path ''/api/mappings/'')"

definition detail_json :: "SSHServer \<Rightarrow> json" where
  "detail_json srv = JObj [(''serial_port'', JStr (Device srv)), (''ssh_port'', JInt (Port srv)),
     (''connected'', JBool (IsConnected (session srv)))]"

definition sub_path :: "http_env \<Rightarrow> Request \<Rightarrow> string \<Rightarrow> SSHServer \<Rightarrow> action outcome" where
  "sub_path env r part srv =
     (if part = ''tail'' then then_do (handleTail r srv) (\<lambda>resp. Ret (Answer resp))
      else if part = ''log'' then Ret (Answer (handleLog env r srv))
      else if part = ''write'' then Ret (StartWrite srv)
      else if part = ''exec'' then Ret (StartExec srv)
      else Ret (Answer (writeJSON 404 (error_json ''unknown sub-path''))))"

definition handleMappingDetail :: "http_env \<Rightarrow> Request \<Rightarrow> Gateway \<Rightarrow> (action \<times> Gateway) outcome" where
  "handleMappingDetail env r gw =
     (let parts = path_parts (Path r); device = hd parts in
      if Method r = ''DELETE'' \<and> length parts = 1 then
        (case RemoveMapping device (gw_pm gw) of
           (Some e, pm) \<Rightarrow> Ret (Answer (writeJSON 404 (error_json e)), gw\<lparr>gw_pm := pm\<rparr>)
         | (None, pm) \<Rightarrow>
             Ret (Answer (writeJSON 200 (JObj [(''device'', JStr device), (''status'', JStr ''removed'')])),
                  gw\<lparr>gw_pm := pm\<rparr>))
      else (case GetServer device (gw_pm gw) of
          None \<Rightarrow> Ret (Answer (writeJSON 404 (error_json (''mapping not found for '' @ device))), gw)
        | Some srv \<Rightarrow>
            if length parts \<ge> 2 then then_do (sub_path env r (parts ! 1) srv) (\<lambda>a. Ret (a, gw))
            else Ret (Answer (writeJSON 200 (detail_json srv)), gw)))"

section \<open>Routing\<close>

text \<open>
  \<open>Handler\<close>: four exact patterns and one subtree. The mux answers 404 for every other path; its
  redirects for paths that are not clean happen before this function.
\<close>

definition Handler :: "http_env \<Rightarrow> Request \<Rightarrow> Gateway \<Rightarrow> (action \<times> Gateway) outcome" where
  "Handler env r gw =
     (if Path r = ''/api/ports'' then Ret (Answer (handleGetPorts env r gw), gw)
      else if Path r = ''/api/mappings'' then
        then_do (handleMappings env (\<lambda>_ d. GetServer d (gw_pm gw)) r gw) (\<lambda>(resp, gw'). Ret (Answer resp, gw'))
      else if has_prefix (Path r) ''/api/mappings/'' then handleMappingDetail env r gw
      else if Path r = ''/api/config'' then
        (let (resp, gw') = handleConfig env r gw in Ret (Answer resp, gw'))
      else if Path r = ''/api/notify'' then Ret (StartNotify, gw)
      else Ret (Answer (plain_text ''404 page not found''\<lparr>code := 404\<rparr>), gw))"

section \<open>Lemmas\<close>

lemma trim_prefix_append: "trim_prefix (p @ s) p = s"
  by (simp add: trim_prefix_def)

lemma path_parts_device: "CHR ''/'' \<notin> set d \<Longrightarrow> path_parts (''/api/mappings/'' @ d) = [d]"
  unfolding path_parts_def trim_prefix_append by (rule split_on_none)

lemma path_parts_sub:
  "CHR ''/'' \<notin> set d \<Longrightarrow> CHR ''/'' \<notin> set p \<Longrightarrow>
   path_parts (''/api/mappings/'' @ d @ CHR ''/'' # p) = [d, p]"
  unfolding path_parts_def trim_prefix_append by (simp add: split_on_append split_on_none)

lemma mappings_json_total:
  "(\<forall>m \<in> set ms. \<forall>i. look i (serial_port m) \<noteq> None) \<Longrightarrow> \<exists>js. mappings_json look i ms = Ret js \<and> length js = length ms"
proof (induction ms arbitrary: i)
  case (Cons m ms)
  obtain srv where "look i (serial_port m) = Some srv" using Cons.prems by fastforce
  moreover obtain js where "mappings_json look (Suc i) ms = Ret js" "length js = length ms"
    using Cons.IH [of "Suc i"] Cons.prems by auto
  ultimately show ?case by simp
qed simp

lemma mapped_devices:
  assumes "pm_ok pm" and "m \<in> set (Mappings pm)"
  shows "GetServer (serial_port m) pm \<noteq> None"
proof -
  obtain d s where ds: "(d, s) \<in> set (servers pm)" "m = mapping_of s"
    using assms(2) by (auto simp: Mappings_def)
  then have "srv_device s = d" using assms(1) by (auto simp: pm_ok_def serves_def)
  then have "serial_port m = d" using ds(2) by (simp add: mapping_of_def Device_def)
  then show ?thesis
    using weak_map_of_SomeI [OF ds(1)] by (simp add: GetServer_def)
qed

lemma handleTail_returns: "returns (handleTail r srv)"
proof -
  have "0 \<le> n \<Longrightarrow> \<exists>es. Tail rb n = Ret es" for rb n
    by (simp add: Tail_def Let_def)
  moreover have "0 \<le> (let l = query r ''lines'' in if l = '''' then 200
                   else case atoi l of None \<Rightarrow> 200 | Some n \<Rightarrow> if n > 0 then n else 200)"
    by (auto simp: Let_def split: option.splits)
  ultimately obtain es where "Tail (ringBuffer (session srv)) (let l = query r ''lines'' in if l = '''' then 200
                   else case atoi l of None \<Rightarrow> 200 | Some n \<Rightarrow> if n > 0 then n else 200) = Ret es"
    by blast
  then show ?thesis by (simp add: handleTail_def Let_def)
qed

lemma handleGetMappings_returns:
  assumes "pm_ok (gw_pm gw)"
  shows "\<exists>resp. handleGetMappings (\<lambda>_ d. GetServer d (gw_pm gw)) gw = Ret resp \<and> code resp = 200"
proof -
  obtain js where "mappings_json (\<lambda>_ d. GetServer d (gw_pm gw)) 0 (Mappings (gw_pm gw)) = Ret js"
    using mappings_json_total mapped_devices [OF assms] by metis
  then show ?thesis by (simp add: handleGetMappings_def writeJSON_def)
qed

lemma handleCreateMapping_returns:
  assumes "pm_ok (gw_pm gw)"
  shows "\<exists>resp gw'. handleCreateMapping env r gw = Ret (resp, gw') \<and> pm_ok (gw_pm gw') \<and> gw_cfg gw' = gw_cfg gw"
proof (cases "decode_field env ''device'' (Body r)")
  case None
  then show ?thesis using assms by (simp add: handleCreateMapping_def)
next
  case (Some d)
  show ?thesis
  proof (cases "d = ''''")
    case False
    obtain res pm where a: "AddMapping (starting env) d (gw_pm gw) = Ret (res, pm)" "pm_ok pm"
      using table.add_returns [OF assms] by blast
    then show ?thesis using Some False by (cases res) (simp_all add: handleCreateMapping_def)
  qed (use Some assms in \<open>simp add: handleCreateMapping_def\<close>)
qed

lemma detail_delete:
  assumes "Method r = ''DELETE''" and "length (path_parts (Path r)) = 1"
    and "RemoveMapping (hd (path_parts (Path r))) (gw_pm gw) = (e, pm)"
  shows "handleMappingDetail env r gw =
    Ret (Answer (case e of
           Some m \<Rightarrow> writeJSON 404 (error_json m)
         | None \<Rightarrow> writeJSON 200 (JObj [(''device'', JStr (hd (path_parts (Path r)))), (''status'', JStr ''removed'')])),
      gw\<lparr>gw_pm := pm\<rparr>)"
  unfolding handleMappingDetail_def Let_def assms by (cases e) simp_all

lemma detail_other:
  assumes "Method r \<noteq> ''DELETE'' \<or> length (path_parts (Path r)) \<noteq> 1"
  shows "handleMappingDetail env r gw =
    (case GetServer (hd (path_parts (Path r))) (gw_pm gw) of
       None \<Rightarrow> Ret (Answer (writeJSON 404 (error_json (''mapping not found for '' @ hd (path_parts (Path r))))), gw)
     | Some srv \<Rightarrow>
         if length (path_parts (Path r)) \<ge> 2
         then then_do (sub_path env r (path_parts (Path r) ! 1) srv) (\<lambda>a. Ret (a, gw))
         else Ret (Answer (writeJSON 200 (detail_json srv)), gw))"
proof -
  have "\<not> (Method r = ''DELETE'' \<and> length (path_parts (Path r)) = 1)" using assms by blast
  then show ?thesis by (simp only: handleMappingDetail_def Let_def if_False)
qed

lemma if_returns: "\<exists>a. f = Ret a \<Longrightarrow> \<exists>a. g = Ret a \<Longrightarrow> \<exists>a. (if c then f else g) = Ret a"
  by simp

lemma Ret_returns: "\<exists>a. Ret x = Ret a"
  by blast

lemma sub_path_returns: "\<exists>a. sub_path env r p srv = Ret a"
proof -
  obtain resp where t: "handleTail r srv = Ret resp" using handleTail_returns [unfolded returns_iff] by blast
  show ?thesis
    unfolding sub_path_def t then_do.simps by (intro if_returns Ret_returns)
qed

lemma handleMappingDetail_returns:
  assumes "pm_ok (gw_pm gw)"
  shows "\<exists>a gw'. handleMappingDetail env r gw = Ret (a, gw') \<and> pm_ok (gw_pm gw') \<and> gw_cfg gw' = gw_cfg gw"
proof (cases "Method r \<noteq> ''DELETE'' \<or> length (path_parts (Path r)) \<noteq> 1")
  case True
  obtain a where "sub_path env r (path_parts (Path r) ! 1) srv = Ret (a srv)" for srv
    using sub_path_returns by metis
  then show ?thesis
    using assms by (cases "GetServer (hd (path_parts (Path r))) (gw_pm gw)") (simp_all add: detail_other [OF True])
next
  case False
  obtain e pm where rm: "RemoveMapping (hd (path_parts (Path r))) (gw_pm gw) = (e, pm)" by fastforce
  have "pm_ok pm" using RemoveMapping_ok [OF assms rm] by blast
  have "Method r = ''DELETE''" "length (path_parts (Path r)) = 1" using False by blast+
  note d = detail_delete [OF this rm]
  show ?thesis using \<open>pm_ok pm\<close> by (intro exI conjI) (rule d, simp_all)
qed

section \<open>Properties\<close>


lemma contains_after:
  assumes "contains d t"
  shows "contains (p @ d) t"
proof -
  obtain a b where "d = a @ t @ b" using assms by (auto simp: contains_iff sublist_def)
  then have "p @ d = (p @ a) @ t @ b" by simp
  then show ?thesis unfolding contains_iff sublist_def by blast
qed

lemma create_201:
  assumes "handleCreateMapping env r gw = Ret (resp, gw1)" and "code resp = 201"
  shows "\<exists>d srv pm. decode_field env ''device'' (Body r) = Some d \<and> d \<noteq> '''' \<and>
    AddMapping (starting env) d (gw_pm gw) = Ret (Inr srv, pm) \<and> gw1 = gw\<lparr>gw_pm := pm\<rparr>"
proof (cases "decode_field env ''device'' (Body r)")
  case None
  then show ?thesis using assms by (auto simp: handleCreateMapping_def writeJSON_def)
next
  case (Some d)
  have "d \<noteq> ''''" using assms Some by (auto simp: handleCreateMapping_def writeJSON_def)
  then obtain res pm where a: "AddMapping (starting env) d (gw_pm gw) = Ret (res, pm)"
    using assms(1) Some by (auto simp: handleCreateMapping_def then_do_eq_Ret)
  then have "\<not> isl res \<and> gw1 = gw\<lparr>gw_pm := pm\<rparr>"
    using assms Some \<open>d \<noteq> ''''\<close>
    by (cases res) (auto simp: handleCreateMapping_def writeJSON_def split: if_splits)
  then show ?thesis using a Some \<open>d \<noteq> ''''\<close> by (cases res) auto
qed

text \<open>C12. The life of a mapping through the API: after a POST that answers 201, GET on the device answers 200
  with its SSH port, a sub-path reaches its server, and DELETE answers 200 and leaves every
  device's lookup as it was before the POST, after which GET answers 404.\<close>

theorem mapping_life_cycle:
  assumes "pm_ok (gw_pm gw)" and "decode_field env ''device'' (Body r) = Some d" and "CHR ''/'' \<notin> set d"
    and "handleCreateMapping env r gw = Ret (resp, gw1)" and "code resp = 201"
    and "Path q = ''/api/mappings/'' @ d"
  shows "\<exists>srv gw2. Port srv = PortMapping d (pm_cfg (gw_pm gw)) \<and> IsRunning srv \<and>
    (Method q \<noteq> ''DELETE'' \<longrightarrow>
       handleMappingDetail env q gw1 = Ret (Answer (writeJSON 200 (detail_json srv)), gw1)) \<and>
    (Method q = ''DELETE'' \<longrightarrow> handleMappingDetail env q gw1 = Ret (Answer (writeJSON 200
         (JObj [(''device'', JStr d), (''status'', JStr ''removed'')])), gw2)) \<and>
    pm_ok (gw_pm gw2) \<and> (\<forall>j. GetServer j (gw_pm gw2) = GetServer j (gw_pm gw))"
proof -
  obtain srv pm where a: "AddMapping (starting env) d (gw_pm gw) = Ret (Inr srv, pm)" "gw1 = gw\<lparr>gw_pm := pm\<rparr>"
    using create_201 [OF assms(4,5)] assms(2) by auto
  have ok: "pm_ok pm" using AddMapping_keeps(1) [OF assms(1) a(1)] .
  have l: "GetServer d (gw_pm gw) = None" "GetServer d pm = Some srv"
    using table.add_Inr [OF assms(1) a(1)] by simp_all
  have cfg: "pm_cfg pm = pm_cfg (gw_pm gw)" using AddMapping_ok [OF assms(1), of "starting env" d] a by auto
  have s: "serves (pm_cfg pm) d srv"
    using ok map_of_SomeD [OF l(2) [unfolded GetServer_def]] by (auto simp: pm_ok_def)
  have parts: "path_parts (Path q) = [d]" using path_parts_device [OF assms(3)] assms(6) by simp
  obtain e pm2 where rm: "RemoveMapping d pm = (e, pm2)" by fastforce
  note ro = RemoveMapping_ok [OF ok rm]
  have e: "e = None" using ro l by simp
  have restored: "GetServer j pm2 = GetServer j (gw_pm gw)" for j
    using RemoveMapping_ok [OF ok rm, of j] table.add_other [OF assms(1) a(1)] l by (cases "j = d") simp_all
  have "handleMappingDetail env q gw1 = Ret (Answer (writeJSON 200 (detail_json srv)), gw1)"
    if "Method q \<noteq> ''DELETE''"
    using detail_other [of q env gw1] that parts l a by simp
  moreover have "handleMappingDetail env q gw1 = Ret (Answer (writeJSON 200
         (JObj [(''device'', JStr d), (''status'', JStr ''removed'')])), gw1\<lparr>gw_pm := pm2\<rparr>)"
    if "Method q = ''DELETE''"
    using detail_delete [of q gw1 e pm2 env] that parts rm a e by simp
  moreover have "Port srv = PortMapping d (pm_cfg (gw_pm gw)) \<and> IsRunning srv"
    using s cfg by (simp add: serves_def Port_def IsRunning_def)
  ultimately show ?thesis
    using ro restored by (intro exI [of _ srv] exI [of _ "gw1\<lparr>gw_pm := pm2\<rparr>"]) simp
qed

text \<open>A path under a device that is not mapped answers 404 for every method and sub-path, and neither the
  table nor the configuration changes.\<close>

theorem unmapped_device_is_not_found:
  assumes "pm_ok (gw_pm gw)" and "GetServer (hd (path_parts (Path r))) (gw_pm gw) = None"
  shows "\<exists>m. handleMappingDetail env r gw = Ret (Answer (writeJSON 404 (error_json m)), gw)"
proof (cases "Method r \<noteq> ''DELETE'' \<or> length (path_parts (Path r)) \<noteq> 1")
  case True
  show ?thesis unfolding detail_other [OF True] assms(2) option.case by blast
next
  case False
  then have m: "Method r = ''DELETE''" "length (path_parts (Path r)) = 1" by blast+
  have "RemoveMapping (hd (path_parts (Path r))) (gw_pm gw) =
      (Some (''no mapping for '' @ hd (path_parts (Path r))), gw_pm gw)"
    using assms(2) by (simp add: RemoveMapping_def GetServer_def)
  note d = detail_delete [OF m this, of env, unfolded option.case]
  have "gw\<lparr>gw_pm := gw_pm gw\<rparr> = gw" by simp
  then show ?thesis using d by metis
qed

text \<open>The status of a POST tells what happened, with one exception: 409 is also the answer for a device
  that is not mapped and cannot be (it has no port number) when its own name contains the words
  \<open>already exists\<close>, because the handler searches the error message for them.\<close>

theorem conflict_status_is_misreported:
  assumes "decode_field env ''device'' (Body r) = Some d" and "contains d ''already exists''"
    and "GetServer d (gw_pm gw) = None" and "PortMapping d (pm_cfg (gw_pm gw)) = 0"
  shows "handleCreateMapping env r gw =
    Ret (writeJSON 409 (error_json (''cannot determine SSH port for device '' @ d)), gw)"
proof -
  have "d \<noteq> ''''" using assms(2) by auto
  moreover have "contains (''cannot determine SSH port for device '' @ d) ''already exists''"
    using contains_after [OF assms(2)] .
  moreover have "AddMapping (starting env) d (gw_pm gw) =
      Ret (Inl (''cannot determine SSH port for device '' @ d), gw_pm gw)"
    using assms(3,4) by (simp add: AddMapping_def GetServer_def NewSSHServer_def)
  ultimately show ?thesis using assms(1) unfolding handleCreateMapping_def by simp
qed

text \<open>Listing the mappings panics when one of them is removed between the snapshot of the table and the
  second lookup of its server: the handler dereferences the missing server.\<close>

theorem listing_races_with_removal:
  assumes "m \<in> set (Mappings (gw_pm gw))" and "\<And>i. look i (serial_port m) = None"
  shows "\<exists>e. handleGetMappings look gw = Panic e"
proof -
  have "\<exists>e. mappings_json look i ms = Panic e" if "m \<in> set ms" for i ms
    using that
  proof (induction ms arbitrary: i)
    case (Cons a ms)
    show ?case
    proof (cases "look i (serial_port a)")
      case (Some srv)
      then have "m \<in> set ms" using Cons.prems assms(2) by auto
      then obtain e where "mappings_json look (Suc i) ms = Panic e" using Cons.IH by blast
      then show ?thesis using Some by simp
    qed simp
  qed simp
  then obtain e where "mappings_json look 0 (Mappings (gw_pm gw)) = Panic e" using assms(1) by blast
  then show ?thesis by (simp add: handleGetMappings_def)
qed

text \<open>PUT on the configuration answers with the filled-in configuration and makes the gateway's own
  reads use it, but the table of ports keeps the old one: the port list then announces SSH ports
  and baud rates of the new configuration, while a mapping made afterwards still gets its port
  from the old.\<close>

theorem put_config_does_not_reach_the_ports:
  assumes "decode_config env (Body r) = Some c" and "Method r = ''PUT''" and "pm_ok (gw_pm gw)"
    and "handleConfig env r gw = (resp, gw1)"
  shows "body resp = ConfigJson (ApplyDefaults c) \<and> gw_cfg gw1 = ApplyDefaults c \<and> gw_pm gw1 = gw_pm gw \<and>
    (\<exists>fs. port_json gw1 p = JObj fs \<and>
       map_of fs ''ssh_port'' = Some (JInt (PortMapping (pi_Device p) (ApplyDefaults c)))) \<and>
    (\<forall>srv pm. AddMapping (starting env) (pi_Device p) (gw_pm gw1) = Ret (Inr srv, pm) \<longrightarrow>
       Port srv = PortMapping (pi_Device p) (pm_cfg (gw_pm gw)))"
proof -
  have h: "resp = \<lparr>code = 200, content_type = ''application/json'', body = ConfigJson (ApplyDefaults c)\<rparr>"
       "gw1 = gw\<lparr>gw_cfg := ApplyDefaults c\<rparr>"
    using assms by (simp_all add: handleConfig_def Let_def)
  have "Port srv = PortMapping d (pm_cfg (gw_pm gw))"
    if "AddMapping (starting env) d (gw_pm gw) = Ret (Inr srv, pm)" for d srv pm
    using assms(3) that
    by (cases rule: AddMapping_cases [of "gw_pm gw" d "starting env"]) (auto simp: serves_def Port_def)
  moreover have "\<exists>fs. port_json gw1 p = JObj fs \<and>
       map_of fs ''ssh_port'' = Some (JInt (PortMapping (pi_Device p) (ApplyDefaults c)))"
    using h(2) by (simp add: port_json_def Let_def)
  ultimately show ?thesis using h by simp
qed

text \<open>The tail of a port's history is the text of its newest lines, oldest first, as many as the query
  asks for (200 when it does not name a positive number) and all when there are fewer.\<close>

theorem tail_returns_newest_lines:
  "\<exists>n > 0. handleTail r srv = Ret (plain_text (join [newline] (map Line
      (drop (length (All (ringBuffer (session srv))) - n) (All (ringBuffer (session srv))))))) \<and>
    n = (case atoi (query r ''lines'') of None \<Rightarrow> 200 | Some k \<Rightarrow> if k > 0 then nat k else 200)"
proof -
  let ?n = "case atoi (query r ''lines'') of None \<Rightarrow> 200 | Some k \<Rightarrow> if k > 0 then nat k else 200"
  have "atoi '''' = None" by (simp add: atoi_def)
  then have "(let l = query r ''lines'' in if l = '''' then 200
      else case atoi l of None \<Rightarrow> 200 | Some n \<Rightarrow> if n > 0 then n else 200) = int ?n"
    by (auto simp: Let_def split: option.splits)
  moreover have "Tail rb (int k) = Ret (drop (length (All rb) - k) (All rb))" for rb k
    by (auto simp: Tail_def All_def Let_def nat_diff_distrib')
  ultimately show ?thesis
    by (intro exI [of _ ?n]) (auto simp: handleTail_def Let_def split: option.splits)
qed

text \<open>A request cannot be queued now.\<close>

definition queue_full :: "Session \<Rightarrow> bool" where
  "queue_full s \<longleftrightarrow> closed (sess_writeCh s) \<or> \<not> has_room (sess_writeCh s)"

text \<open>An accepted write queues exactly the posted bytes, behind what is queued already, on a session that is
  connected (the handler opens the port when it is not); a request that is refused queues nothing.\<close>

theorem write_queues_the_posted_data:
  shows "(case begin_write env r srv of
      Inl (resp, s) \<Rightarrow> code resp \<in> {400, 405, 500} \<and> sess_writeCh s = sess_writeCh (session srv)
    | Inr (data, None) \<Rightarrow> data \<noteq> '''' \<and> queue_full (session srv)
    | Inr (data, Some s) \<Rightarrow> data \<noteq> '''' \<and> decode_field env ''data'' (Body r) = Some data \<and>
        IsConnected s \<and> buf (sess_writeCh s) =
          buf (sess_writeCh (session srv)) @ [\<lparr>Data = data, Done = next_req (session srv)\<rparr>])"
proof -
  have o: "sess_writeCh (fst (Open dev s)) = sess_writeCh s" "next_req (fst (Open dev s)) = next_req s"
      "snd (Open dev s) = None \<Longrightarrow> IsConnected (fst (Open dev s))" for dev s
    by (auto simp: Open_def spawn_def IsConnected_def split: option.splits if_splits)
  have sub: "submit d s = (if closed (sess_writeCh s) \<or> \<not> has_room (sess_writeCh s) then None
      else Some (s\<lparr>sess_writeCh := (sess_writeCh s)\<lparr>buf := buf (sess_writeCh s) @ [\<lparr>Data = d, Done = next_req s\<rparr>]\<rparr>,
        next_req := Suc (next_req s)\<rparr>))" for d s
    by (simp add: submit_def send_def)
  have sub_c: "submit d s = Some t \<Longrightarrow> IsConnected t = IsConnected s" for d s t
    by (auto simp: sub IsConnected_def split: if_splits)
  let ?o = "if IsConnected (session srv) then (session srv, None) else Open (driver env) (session srv)"
  obtain s1 err where so: "?o = (s1, err)" by fastforce
  then have s1: "sess_writeCh s1 = sess_writeCh (session srv)" "next_req s1 = next_req (session srv)"
      "err = None \<Longrightarrow> IsConnected s1"
    using o [of "driver env" "session srv"] by (auto split: if_splits)
  show ?thesis
  proof (cases "Method r = ''POST'' \<and> (\<exists>d. decode_field env ''data'' (Body r) = Some d \<and> d \<noteq> '''')")
    case False
    then show ?thesis
      by (cases "decode_field env ''data'' (Body r)") (auto simp: begin_write_def Let_def writeJSON_def)
  next
    case True
    then obtain d where d: "decode_field env ''data'' (Body r) = Some d" "d \<noteq> ''''" by blast
    have b: "begin_write env r srv = (case err of
        Some e \<Rightarrow> Inl (writeJSON 500 (error_json (''serial open failed: '' @ e)), s1)
      | None \<Rightarrow> Inr (d, submit d s1))"
      using True d so by (cases err) (simp_all add: begin_write_def Let_def)
    show ?thesis
    proof (cases err)
      case (Some e)
      show ?thesis unfolding b Some using s1(1) by (simp add: writeJSON_def)
    next
      case None
      show ?thesis
      proof (cases "submit d s1")
        case None
        then have "queue_full s1"
          by (simp add: sub queue_full_def split: if_splits)
        then show ?thesis unfolding b \<open>err = None\<close> using None d(2) s1(1) by (simp add: queue_full_def)
      next
        case (Some t)
        then have "buf (sess_writeCh t) = buf (sess_writeCh s1) @ [\<lparr>Data = d, Done = next_req s1\<rparr>]"
          by (auto simp: sub split: if_splits)
        then show ?thesis
          unfolding b \<open>err = None\<close> using Some d s1 sub_c [OF Some] \<open>err = None\<close> by simp
      qed
    qed
  qed
qed

section \<open>Witnesses\<close>

definition lab_http :: http_env where
  "lab_http = \<lparr>decode_field = (\<lambda>f b. if b = '''' then None else Some b), decode_config = (\<lambda>b. Some zero_config),
     encode_entry = Line, rfc3339 = itoa, detailed_ports = Inr [], driver = (\<lambda>_ _. None), starting = lab_env\<rparr>"

definition lab_gateway :: Gateway where
  "lab_gateway = NewGatewayWithManager lab_config lab"

definition req :: "string \<Rightarrow> string \<Rightarrow> bytes \<Rightarrow> Request" where
  "req m p b = \<lparr>Method = m, Path = p, query = (\<lambda>_. ''''), Body = b\<rparr>"

lemma req_sel [simp]: "Method (req m p b) = m" "Path (req m p b) = p" "Body (req m p b) = b"
  by (simp_all add: req_def)

lemma lab_gateway_sel [simp]: "gw_pm lab_gateway = lab" "gw_cfg lab_gateway = lab_config"
  by (simp_all add: lab_gateway_def NewGatewayWithManager_def)

lemma lab_lookups:
  "GetServer ''COM9'' lab = None" "GetServer ''already exists'' lab = None"
  "PortMapping ''already exists'' lab_config = 0" "map_option Port (GetServer ''COM3'' lab) = Some 2203"
proof -
  have "Option.is_none (GetServer ''COM9'' lab)" "Option.is_none (GetServer ''already exists'' lab)"
    by code_simp+
  then show "GetServer ''COM9'' lab = None" "GetServer ''already exists'' lab = None"
    by (simp_all add: Option.is_none_def)
  show "PortMapping ''already exists'' lab_config = 0" "map_option Port (GetServer ''COM3'' lab) = Some 2203"
    by code_simp+
qed


theorem mapping_life_cycle_witness:
  "\<exists>resp gw1 srv. handleCreateMapping lab_http (req ''POST'' ''/api/mappings'' ''COM9'') lab_gateway = Ret (resp, gw1) \<and>
     code resp = 201 \<and> Port srv = PortMapping ''COM9'' lab_config \<and>
     handleMappingDetail lab_http (req ''GET'' (''/api/mappings/'' @ ''COM9'') '''') gw1 =
       Ret (Answer (writeJSON 200 (detail_json srv)), gw1)"
proof -
  let ?r = "req ''POST'' ''/api/mappings'' ''COM9''" and ?q = "req ''GET'' (''/api/mappings/'' @ ''COM9'') ''''"
  have "case handleCreateMapping lab_http ?r lab_gateway of Ret (resp, gw1) \<Rightarrow> code resp = 201 | _ \<Rightarrow> False"
    by code_simp
  then obtain resp gw1 where h: "handleCreateMapping lab_http ?r lab_gateway = Ret (resp, gw1)" "code resp = 201"
    by (auto split: outcome.splits prod.splits)
  have "decode_field lab_http ''device'' (Body ?r) = Some ''COM9''" by (simp add: lab_http_def)
  moreover have "Path ?q = ''/api/mappings/'' @ ''COM9''" "Method ?q \<noteq> ''DELETE''" by simp_all
  ultimately show ?thesis
    using mapping_life_cycle [of lab_gateway lab_http ?r "''COM9''" resp gw1 ?q] h lab_start(2) lab_facts(6)
    by fastforce
qed

theorem unmapped_device_is_not_found_witness:
  "\<exists>m. handleMappingDetail lab_http (req ''GET'' (''/api/mappings/'' @ ''COM9'') '''') lab_gateway =
     Ret (Answer (writeJSON 404 (error_json m)), lab_gateway)"
  using unmapped_device_is_not_found [of lab_gateway "req ''GET'' (''/api/mappings/'' @ ''COM9'') ''''" lab_http]
    path_parts_device [of "''COM9''"] lab_start(2) lab_lookups(1) by simp

theorem conflict_status_is_misreported_witness:
  "\<exists>e. handleCreateMapping lab_http (req ''POST'' ''/api/mappings'' ''already exists'') lab_gateway =
     Ret (writeJSON 409 (error_json e), lab_gateway)"
  using conflict_status_is_misreported [of lab_http "req ''POST'' ''/api/mappings'' ''already exists''"
      "''already exists''" lab_gateway] lab_lookups(2,3) lab_facts(6)
  by (auto simp: lab_http_def)

theorem listing_races_with_removal_witness:
  "\<exists>e. handleGetMappings (\<lambda>_ _. None) lab_gateway = Panic e"
proof -
  have "map serial_port (Mappings lab) \<noteq> []" by (simp add: lab_facts(3))
  then obtain m where "m \<in> set (Mappings (gw_pm lab_gateway))" by (cases "Mappings lab") auto
  then show ?thesis using listing_races_with_removal [of m lab_gateway "\<lambda>_ _. None"] by simp
qed

theorem put_config_does_not_reach_the_ports_witness:
  "gw_pm (snd (handleConfig lab_http (req ''PUT'' ''/api/config'' ''{}'') lab_gateway)) = lab \<and>
   BasePort (SSH (gw_cfg (snd (handleConfig lab_http (req ''PUT'' ''/api/config'' ''{}'') lab_gateway)))) = 2200"
proof -
  let ?r = "req ''PUT'' ''/api/config'' ''{}''"
  have "gw_cfg (snd (handleConfig lab_http ?r lab_gateway)) = ApplyDefaults zero_config \<and>
      gw_pm (snd (handleConfig lab_http ?r lab_gateway)) = lab"
    using put_config_does_not_reach_the_ports [of lab_http ?r zero_config lab_gateway
        "fst (handleConfig lab_http ?r lab_gateway)" "snd (handleConfig lab_http ?r lab_gateway)"] lab_start(2)
    by (simp add: lab_http_def)
  moreover have "BasePort (SSH (ApplyDefaults zero_config)) = 2200" by code_simp
  ultimately show ?thesis by simp
qed

end
