(* ===== verification/Exec.thy ===== *)
theory Exec
  imports HttpApi
begin

text \<open>
  \<open>internal/http/exec.go\<close>: \<open>handleExec\<close> runs a command on a port and streams the output as server-sent
  events. The handler is split at its waits: \<open>begin_exec\<close> runs up to the wait for the write,
  \<open>after_write\<close> continues from it, and \<open>exec_loop\<close> is the event loop, over the sequence of events its
  \<open>select\<close> takes. The client's side of the stream is specified by \<open>sse_parse\<close>, the event stream
  interpretation of the HTML standard.
\<close>

section \<open>Before the stream\<close>

text \<open>
  \<open>begin_exec\<close>: an early response, or the command, the number of the subscriber's channel and the session once
  the request is queued (\<open>None\<close> while the queue is full).
\<close>

definition begin_exec ::
  "http_env \<Rightarrow> Request \<Rightarrow> SSHServer \<Rightarrow> (Response \<times> Session) + (nat \<times> Session option)" where
  "begin_exec env r srv =
     (let sess = session srv; cmd = query r ''cmd'' in
      if Method r \<noteq> ''GET'' then Inl (writeJSON 405 (error_json ''method not allowed, use GET''), sess)
      else if cmd = '''' then Inl (writeJSON 400 (error_json ''cmd query parameter is required''), sess)
      else (let (sess1, err) = (if IsConnected sess then (sess, None) else Open (driver env) sess) in
        case err of
          Some e \<Rightarrow> Inl (writeJSON 500 (error_json (''serial open failed: '' @ e)), sess1)
        | None \<Rightarrow> (let (sess2, sub) = Subscribe sess1 in Inr (sub, submit cmd sess2))))"

text \<open>\<open>Some\<close> response ends the handler; \<open>None\<close> starts the stream.\<close>

definition after_write :: "waited \<Rightarrow> Response option" where
  "after_write w =
     (case w of
        Answered None \<Rightarrow> None
      | Answered (Some e) \<Rightarrow> Some (writeJSON 500 (error_json e))
      | TimedOut \<Rightarrow> Some (writeJSON 500 (error_json ''write timeout'')))"

text \<open>
  A timeout: the configured one unless the query parameter parses as a positive number of seconds;
  \<open>seconds\<close> is \<open>strconv.ParseFloat\<close> followed by the conversion to nanoseconds, \<open>None\<close> unless positive.
\<close>

definition exec_timeout :: "(string \<Rightarrow> int option) \<Rightarrow> int \<Rightarrow> string \<Rightarrow> int" where
  "exec_timeout seconds configured v =
     (if v = '''' then configured else case seconds v of None \<Rightarrow> configured | Some d \<Rightarrow> d)"

section \<open>The event loop\<close>

datatype exec_event =
    ContextDone
  | MaxTimer
  | SilenceTimer
  | Message string
  | SubClosed

definition data_line :: "string \<Rightarrow> string" where
  "data_line line = ''data: '' @ line @ [newline]"

definition flush_partial :: "bytes \<Rightarrow> string" where
  "flush_partial lb = (if lb \<noteq> [] then data_line lb else [])"

definition done_event :: "string \<Rightarrow> string" where
  "done_event reason = ''event: done'' @ [newline] @ data_line (CHR ''{'' # [CHR 0x22] @ ''reason'' @ [CHR 0x22]
     @ '':'' @ [CHR 0x22] @ reason @ [CHR 0x22] @ ''}'') @ [newline]"

text \<open>One message: every complete line becomes a data line, and a blank line ends the event.\<close>

definition on_message :: "bytes \<Rightarrow> string \<Rightarrow> string \<times> bytes" where
  "on_message lb msg =
     (let (raws, rest) = cut_lines (lb @ msg) in
      (concat (map (\<lambda>raw. data_line (trim_right raw carriage_return)) raws) @ [newline], rest))"

text \<open>What the loop writes for a sequence of events, and whether it has returned.\<close>

fun exec_loop :: "exec_event list \<Rightarrow> bytes \<Rightarrow> string \<times> bool" where
  "exec_loop [] lb = ([], False)"
| "exec_loop (ContextDone # es) lb = ([], True)"
| "exec_loop (MaxTimer # es) lb = (flush_partial lb @ done_event ''timeout'', True)"
| "exec_loop (SilenceTimer # es) lb = (flush_partial lb @ done_event ''silence'', True)"
| "exec_loop (SubClosed # es) lb = ([], True)"
| "exec_loop (Message msg # es) lb =
     (let (out, lb') = on_message lb msg; (rest, ended) = exec_loop es lb' in (out @ rest, ended))"

section \<open>What a client sees\<close>

text \<open>Lines of an event stream end with LF, CR or CRLF; an unfinished last line is dropped.\<close>

fun sse_lines :: "string \<Rightarrow> string \<Rightarrow> string list" where
  "sse_lines acc [] = []"
| "sse_lines acc (c # cs) =
     (if c = newline then rev acc # sse_lines [] cs
      else if c = carriage_return then
        rev acc # (case cs of [] \<Rightarrow> [] | d # ds \<Rightarrow> if d = newline then sse_lines [] ds else sse_lines [] cs)
      else sse_lines (c # acc) cs)"

definition sse_field :: "string \<Rightarrow> string \<times> string" where
  "sse_field l =
     (case index_byte l CHR '':'' of
        None \<Rightarrow> (l, [])
      | Some i \<Rightarrow> (take i l, trim_prefix (drop (Suc i) l) '' ''))"

text \<open>An event is its type and its data lines; a blank line dispatches it unless it has no data.\<close>

fun sse_events :: "string list \<Rightarrow> string \<Rightarrow> string list \<Rightarrow> (string \<times> string list) list" where
  "sse_events [] ty data = []"
| "sse_events (l # ls) ty data =
     (if l = [] then (if data = [] then [] else [(ty, data)]) @ sse_events ls [] []
      else if fst (sse_field l) = ''data'' then sse_events ls ty (data @ [snd (sse_field l)])
      else if fst (sse_field l) = ''event'' then sse_events ls (snd (sse_field l)) data
      else sse_events ls ty data)"

definition sse_parse :: "string \<Rightarrow> (string \<times> string list) list" where
  "sse_parse s = sse_events (sse_lines [] s) [] []"

section \<open>Lemmas\<close>

definition one_line :: "string \<Rightarrow> bool" where
  "one_line l \<longleftrightarrow> newline \<notin> set l \<and> carriage_return \<notin> set l"

lemma sse_lines_line: "one_line l \<Longrightarrow> sse_lines acc (l @ newline # s) = (rev acc @ l) # sse_lines [] s"
  by (induction l arbitrary: acc) (auto simp: one_line_def)

definition tagged :: "string \<Rightarrow> string" where
  "tagged x = ''data: '' @ x"

lemma data_line_tagged: "data_line x = tagged x @ [newline]" "tagged x \<noteq> []"
  by (simp_all add: tagged_def data_line_def)

lemma one_line_data: "one_line l \<Longrightarrow> one_line (tagged l)"
  by (simp add: one_line_def tagged_def)

lemma sse_field_data: "sse_field (tagged x) = (''data'', x)"
  by (simp add: sse_field_def tagged_def trim_prefix_def has_prefix_def del: has_prefix_iff)

lemma sse_lines_data_line:
  "one_line x \<Longrightarrow> sse_lines [] (data_line x @ s) = tagged x # sse_lines [] s"
  using sse_lines_line [OF one_line_data, of x "[]" s] by (simp add: data_line_tagged)

lemma sse_lines_data_lines:
  "list_all one_line xs \<Longrightarrow>
   sse_lines [] (concat (map data_line xs) @ s) = map tagged xs @ sse_lines [] s"
  by (induction xs) (simp_all add: sse_lines_data_line)

lemma sse_lines_blank: "sse_lines [] (newline # s) = [] # sse_lines [] s"
  by simp

lemma sse_events_data: "sse_events (tagged x # ls) ty data = sse_events ls ty (data @ [x])"
proof -
  have "sse_events (l # ls) ty data = sse_events ls ty (data @ [snd (sse_field l)])"
    if "l \<noteq> []" "fst (sse_field l) = ''data''" for l
    using that by simp
  then show ?thesis using sse_field_data [of x] data_line_tagged(2) by simp
qed

lemma sse_events_datas:
  "sse_events (map tagged xs @ ls) ty data = sse_events ls ty (data @ xs)"
  by (induction xs arbitrary: data)
    (simp_all only: list.map append_Cons append_Nil sse_events_data append_assoc append_Nil2)

definition reason_json :: "string \<Rightarrow> string" where
  "reason_json reason = CHR ''{'' # [CHR 0x22] @ ''reason'' @ [CHR 0x22] @ '':'' @ [CHR 0x22] @ reason @ [CHR 0x22] @ ''}''"

lemma sse_event_field: "sse_field ''event: done'' = (''event'', ''done'')"
  by (simp add: sse_field_def trim_prefix_def has_prefix_def del: has_prefix_iff)

lemma sse_parse_done:
  assumes "one_line reason" and "one_line rest"
  shows "sse_parse (flush_partial rest @ done_event reason) =
    [(''done'', (if rest = [] then [] else [rest]) @ [reason_json reason])]"
proof -
  have e: "one_line ''event: done''" and r: "one_line (reason_json reason)"
    using assms(1) by (simp_all add: one_line_def reason_json_def)
  have d: "done_event reason = ''event: done'' @ newline # (data_line (reason_json reason) @ [newline])"
    by (simp add: done_event_def reason_json_def)
  have l: "sse_lines [] (done_event reason) = [''event: done'', tagged (reason_json reason), []]"
    unfolding d sse_lines_line [OF e] sse_lines_data_line [OF r] by simp
  have ev: "sse_events [''event: done'', tagged (reason_json reason), []] [] ds =
      [(''done'', ds @ [reason_json reason])]" for ds
  proof -
    have "sse_events (''event: done'' # ls) [] ds = sse_events ls ''done'' ds" for ls
      by (simp add: sse_event_field)
    then show ?thesis by (simp only: sse_events_data) simp
  qed
  show ?thesis
  proof (cases "rest = []")
    case True
    then show ?thesis using ev [of "[]"] by (simp add: sse_parse_def flush_partial_def l)
  next
    case False
    have "sse_parse (flush_partial rest @ done_event reason) = sse_events
        (tagged rest # [''event: done'', tagged (reason_json reason), []]) [] []"
      using False by (simp only: sse_parse_def flush_partial_def if_True not_False_eq_True
          sse_lines_data_line [OF assms(2)] l) 
    then show ?thesis using ev [of "[rest]"] False by (simp only: sse_events_data append_Nil if_False)
  qed
qed

definition sent_lines :: "bytes list \<Rightarrow> string list" where
  "sent_lines raws = map (\<lambda>raw. trim_right raw carriage_return) raws"

lemma sse_parse_message:
  assumes "list_all one_line (sent_lines (fst (cut_lines (lb @ msg))))"
  shows "sse_parse (fst (on_message lb msg) @ s) =
    (if fst (cut_lines (lb @ msg)) = [] then [] else [([], sent_lines (fst (cut_lines (lb @ msg))))]) @ sse_parse s"
proof -
  let ?xs = "sent_lines (fst (cut_lines (lb @ msg)))"
  have "fst (on_message lb msg) = concat (map data_line ?xs) @ [newline]"
    by (simp add: on_message_def sent_lines_def case_prod_beta comp_def)
  then have "sse_lines [] (fst (on_message lb msg) @ s) = map tagged ?xs @ [] # sse_lines [] s"
    using sse_lines_data_lines [OF assms, of "newline # s"] by simp
  then show ?thesis
    by (simp only: sse_parse_def sse_events_datas) (simp add: sent_lines_def)
qed

lemma exec_parse:
  assumes "list_all one_line (sent_lines (fst (cut_lines (lb @ concat msgs))))"
    and "one_line (snd (cut_lines (lb @ concat msgs)))" and "newline \<notin> set lb" and "one_line reason"
    and "e = SilenceTimer \<and> reason = ''silence'' \<or> e = MaxTimer \<and> reason = ''timeout''"
  shows "\<exists>evs. sse_parse (fst (exec_loop (map Message msgs @ [e]) lb)) =
      evs @ [(''done'', (let rest = snd (cut_lines (lb @ concat msgs)) in if rest = [] then [] else [rest]) @ [reason_json reason])] \<and>
    concat (map snd evs) = sent_lines (fst (cut_lines (lb @ concat msgs))) \<and> (\<forall>ev \<in> set evs. fst ev = [])"
  using assms(1-3)
proof (induction msgs arbitrary: lb)
  case Nil
  then have "cut_lines lb = ([], lb)" by (simp add: cut_lines_none)
  moreover have "fst (exec_loop [e] lb) = flush_partial lb @ done_event reason" using assms(5) by auto
  ultimately show ?case
    using Nil sse_parse_done [OF assms(4), of lb] by (simp add: sent_lines_def)
next
  case (Cons m ms)
  let ?c = "cut_lines (lb @ m)" and ?lb = "snd (cut_lines (lb @ m))"
  have split: "fst (cut_lines (lb @ m @ concat ms)) = fst ?c @ fst (cut_lines (?lb @ concat ms))"
      "snd (cut_lines (lb @ m @ concat ms)) = snd (cut_lines (?lb @ concat ms))"
    using cut_lines_append [of "lb @ m" "concat ms"] by simp_all
  have ok: "list_all one_line (sent_lines (fst ?c))" "list_all one_line (sent_lines (fst (cut_lines (?lb @ concat ms))))"
      "one_line (snd (cut_lines (?lb @ concat ms)))"
    using Cons.prems split by (simp_all add: sent_lines_def)
  obtain evs where evs: "sse_parse (fst (exec_loop (map Message ms @ [e]) ?lb)) = evs @
        [(''done'', (let rest = snd (cut_lines (?lb @ concat ms)) in if rest = [] then [] else [rest]) @ [reason_json reason])]"
      "concat (map snd evs) = sent_lines (fst (cut_lines (?lb @ concat ms)))" "\<forall>ev \<in> set evs. fst ev = []"
    using Cons.IH [OF ok(2,3) cut_lines_rest] by blast
  have "fst (exec_loop (map Message (m # ms) @ [e]) lb) =
      fst (on_message lb m) @ fst (exec_loop (map Message ms @ [e]) ?lb)"
    by (simp add: on_message_def case_prod_beta)
  then show ?case
    using evs sse_parse_message [OF ok(1), of "fst (exec_loop (map Message ms @ [e]) ?lb)"] split
    by (intro exI [of _ "(if fst ?c = [] then [] else [([], sent_lines (fst ?c))]) @ evs"])
      (simp add: sent_lines_def)
qed

section \<open>Properties\<close>

text \<open>C5. The stream delivers the command's output: however the serial reads chop it into messages, an event
  stream client that concatenates the data of the events gets every complete line in order (less
  the carriage returns at its end), then the partial line if there is one, then the reason the
  stream ended. (No line has a carriage return elsewhere.)\<close>

theorem exec_stream_delivers_lines:
  assumes "list_all one_line (sent_lines (fst (cut_lines (concat msgs))))"
    and "one_line (snd (cut_lines (concat msgs)))" and "stop \<in> {(SilenceTimer, ''silence''), (MaxTimer, ''timeout'')}"
  shows "concat (map snd (sse_parse (fst (exec_loop (map Message msgs @ [fst stop]) [])))) =
    sent_lines (fst (cut_lines (concat msgs))) @
    (if snd (cut_lines (concat msgs)) = [] then [] else [snd (cut_lines (concat msgs))]) @ [reason_json (snd stop)] \<and>
    snd (exec_loop (map Message msgs @ [fst stop]) [])"
proof -
  have "snd (exec_loop (map Message msgs @ [fst stop]) lb)" for lb
    using assms(3) by (induction msgs arbitrary: lb) (auto simp: case_prod_beta)
  moreover have "one_line (snd stop)" using assms(3) by (auto simp: one_line_def)
  ultimately show ?thesis
    using exec_parse [of "[]" msgs "snd stop" "fst stop"] assms by (auto simp: Let_def)
qed

text \<open>A partial last line does not get an event of its own: it is sent as the first data line of the \<open>done\<close>
  event, in front of the JSON that names the reason, so the data of that event is not the JSON alone.\<close>

theorem partial_line_joins_the_done_event:
  assumes "list_all one_line (sent_lines (fst (cut_lines (concat msgs))))"
    and "one_line (snd (cut_lines (concat msgs)))" and "snd (cut_lines (concat msgs)) \<noteq> []"
  shows "last (sse_parse (fst (exec_loop (map Message msgs @ [SilenceTimer]) []))) =
    (''done'', [snd (cut_lines (concat msgs)), reason_json ''silence''])"
proof -
  have "one_line ''silence''" by (simp add: one_line_def)
  then show ?thesis
    using exec_parse [of "[]" msgs "''silence''" SilenceTimer] assms by (auto simp: Let_def)
qed

text \<open>A carriage return inside a line breaks the stream: the client takes it for a line end and drops what
  follows, because it is no field of an event. A progress display therefore loses its last state.\<close>

theorem inner_carriage_return_is_lost:
  assumes "one_line a" and "one_line b" and "CHR '':'' \<notin> set b" and "b \<notin> {''data'', ''event'', []}"
  shows "sse_parse (fst (exec_loop [Message (a @ carriage_return # b @ [newline])] [])) = [([], [a])]"
proof -
  have nl: "newline \<notin> set (a @ carriage_return # b)" using assms by (simp add: one_line_def)
  have "trim_right (a @ carriage_return # b) carriage_return = a @ carriage_return # b"
    using assms(2,4) by (cases b rule: rev_cases) (auto simp: one_line_def trim_right_def)
  moreover have "cut_lines (a @ carriage_return # b @ [newline]) = ([a @ carriage_return # b], [])"
    using cut_lines_Cons [OF nl, of "[]"] by (simp add: cut_lines_none)
  ultimately have out: "fst (exec_loop [Message (a @ carriage_return # b @ [newline])] []) =
      tagged a @ carriage_return # b @ [newline] @ [newline]"
    by (simp add: on_message_def data_line_tagged(1) tagged_def)
  have cr: "sse_lines acc (l @ carriage_return # s) = (rev acc @ l) # sse_lines [] s"
    if "one_line l" "s = c # cs" "c \<noteq> newline" for acc l s c cs
    using that by (induction l arbitrary: acc) (auto simp: one_line_def)
  obtain c cs where "b @ [newline] @ [newline] = c # cs" "c \<noteq> newline"
    using assms(2,4) by (cases b) (auto simp: one_line_def)
  then have "sse_lines [] (tagged a @ carriage_return # b @ [newline] @ [newline]) = [tagged a, b, []]"
    using cr [OF one_line_data [OF assms(1)], of "b @ [newline] @ [newline]"] sse_lines_line [OF assms(2), of "[]" "[newline]"]
    by simp
  moreover have "sse_field b = (b, [])" using assms(3) by (simp add: sse_field_def)
  then have "sse_events [tagged a, b, []] [] [] = [([], [a])]"
    unfolding sse_events_data using assms(4) by simp
  ultimately show ?thesis by (simp only: sse_parse_def out)
qed

section \<open>Witnesses\<close>

theorem exec_stream_delivers_lines_witness:
  "concat (map snd (sse_parse (fst (exec_loop (map Message [''up'', ''time'' @ [carriage_return, newline] @ ''ok'', [newline]]
     @ [SilenceTimer]) [])))) = [''uptime'', ''ok'', reason_json ''silence'']"
proof -
  let ?m = "[''up'', ''time'' @ [carriage_return, newline] @ ''ok'', [newline]]"
  have c: "cut_lines (concat ?m) = ([''uptime'' @ [carriage_return], ''ok''], [])" by code_simp
  have s: "sent_lines [''uptime'' @ [carriage_return], ''ok''] = [''uptime'', ''ok'']" by code_simp
  show ?thesis
    using exec_stream_delivers_lines [of ?m "(SilenceTimer, ''silence'')"]
    unfolding c fst_conv snd_conv s by (simp add: one_line_def)
qed

theorem partial_line_joins_the_done_event_witness:
  "last (sse_parse (fst (exec_loop (map Message [''root# ''] @ [SilenceTimer]) []))) =
     (''done'', [''root# '', reason_json ''silence''])"
proof -
  have c: "cut_lines (concat [''root# '']) = ([], ''root# '')" by code_simp
  show ?thesis
    using partial_line_joins_the_done_event [of "[''root# '']"] unfolding c fst_conv snd_conv
    by (simp add: sent_lines_def one_line_def)
qed

theorem inner_carriage_return_is_lost_witness:
  "sse_parse (fst (exec_loop [Message (''10%'' @ carriage_return # ''20%'' @ [newline])] [])) = [([], [''10%''])]"
  using inner_carriage_return_is_lost [of "''10%''" "''20%''"] by (simp add: one_line_def)

end
