(* ===== verification/SshHandler.thy ===== *)
theory SshHandler
  imports SshServer
begin

text \<open>
  \<open>internal/ssh/handler.go\<close>: one SSH connection. \<open>open_connection\<close> is the part of \<open>handleSession\<close> that may
  refuse the connection; \<open>conn_step\<close> interleaves its three goroutines (the one that forwards
  serial output, the one that reads the client's input, and \<open>handleSession\<close> itself, which waits for
  \<open>done\<close>) with the serial session's reader and writer.

  The input goroutine reads into one array of 1024 bytes and queues slices of it, so a queued
  request is the length of its slice and its data is whatever the array holds when the writer looks.
\<close>

section \<open>Newlines\<close>

definition crlf :: string where
  "crlf = [carriage_return, newline]"

definition translate :: "string \<Rightarrow> string" where
  "translate msg = replace_all (replace_all msg crlf [newline]) [newline] crlf"

section \<open>Opening\<close>

text \<open>What is printed to a client that is refused, or the session with the client's subscription.\<close>

definition open_connection ::
  "(string \<Rightarrow> Mode \<Rightarrow> error option) \<Rightarrow> Session \<Rightarrow> (string \<times> Session) + (Session \<times> nat)" where
  "open_connection dev sess =
     (let (sess1, err) = (if IsConnected sess then (sess, None) else Open dev sess) in
      case err of
        Some e \<Rightarrow> Inl (''[serial open failed: '' @ e @ '']'' @ [newline], sess1)
      | None \<Rightarrow> Inr (Subscribe sess1))"

section \<open>The goroutines of a connection\<close>

datatype input_state = Reading | Sending nat | Waiting nat | InputEnded

record Conn =
  c_sub :: "string chan"
  c_forwarding :: bool
  c_done :: bool
  c_returned :: bool
  c_screen :: string
  c_array :: bytes
  c_input :: input_state
  c_queue :: "(nat \<times> nat) list"
  c_replies :: "(nat \<times> error option) list"
  c_device :: "bytes list"
  c_reads :: "bytes list"
  c_next :: nat

definition zero_array :: bytes where
  "zero_array = replicate 1024 (CHR 0x00)"

definition new_conn :: Conn where
  "new_conn = \<lparr>c_sub = make_chan 64, c_forwarding = True, c_done = False, c_returned = False,
     c_screen = [], c_array = zero_array, c_input = Reading, c_queue = [],
     c_replies = [], c_device = [], c_reads = [], c_next = 0\<rparr>"

definition write_error :: "error option \<Rightarrow> string" where
  "write_error e = (case e of None \<Rightarrow> [] | Some m \<Rightarrow> ''[write error: '' @ m @ '']'' @ [newline])"

text \<open>The flag of a step says whether it is a write timeout.\<close>

inductive conn_step :: "bool \<Rightarrow> Conn \<Rightarrow> Conn \<Rightarrow> bool" where
  serial_output: "try_send msg (c_sub s) = Ret (ch, b) \<Longrightarrow> conn_step False s (s\<lparr>c_sub := ch\<rparr>)"
| forward: "c_forwarding s \<Longrightarrow> recv (c_sub s) = Some (msg, ch) \<Longrightarrow>
    conn_step False s (s\<lparr>c_sub := ch, c_screen := c_screen s @ translate msg\<rparr>)"
| forward_end: "c_forwarding s \<Longrightarrow> recv (c_sub s) = None \<Longrightarrow> closed (c_sub s) \<Longrightarrow>
    conn_step False s (s\<lparr>c_forwarding := False, c_done := True\<rparr>)"
| main_return: "\<not> c_returned s \<Longrightarrow> c_done s \<Longrightarrow> close_chan (c_sub s) = Ret ch \<Longrightarrow>
    conn_step False s (s\<lparr>c_returned := True, c_sub := ch\<rparr>)"
| input_read: "c_input s = Reading \<Longrightarrow> length data \<le> 1024 \<Longrightarrow>
    conn_step False s (s\<lparr>c_array := data @ drop (length data) (c_array s), c_input := Sending (length data),
      c_reads := c_reads s @ [data]\<rparr>)"
| input_end: "c_input s = Reading \<Longrightarrow> conn_step False s (s\<lparr>c_input := InputEnded\<rparr>)"
| input_send: "c_input s = Sending n \<Longrightarrow> length (c_queue s) < 64 \<Longrightarrow>
    conn_step False s (s\<lparr>c_queue := c_queue s @ [(n, c_next s)], c_input := Waiting (c_next s),
      c_next := Suc (c_next s)\<rparr>)"
| input_reply: "c_input s = Waiting r \<Longrightarrow> (r, e) \<in> set (c_replies s) \<Longrightarrow>
    conn_step False s (s\<lparr>c_input := Reading, c_screen := c_screen s @ write_error e\<rparr>)"
| input_timeout: "c_input s = Waiting r \<Longrightarrow>
    conn_step True s (s\<lparr>c_input := Reading, c_screen := c_screen s @ ''[write timeout]'' @ [newline]\<rparr>)"
| writer: "c_queue s = (n, r) # q \<Longrightarrow>
    conn_step False s (s\<lparr>c_queue := q, c_device := c_device s @ [take n (c_array s)],
      c_replies := (r, e) # c_replies s\<rparr>)"

text \<open>Runs; the flag says whether timeouts are allowed in them.\<close>

inductive conn_reach :: "bool \<Rightarrow> Conn \<Rightarrow> Conn \<Rightarrow> bool" for timeouts s0 where
  conn_refl: "conn_reach timeouts s0 s0"
| conn_extend: "conn_reach timeouts s0 s \<Longrightarrow> conn_step b s t \<Longrightarrow> (b \<Longrightarrow> timeouts) \<Longrightarrow> conn_reach timeouts s0 t"

inductive_cases conn_stepE: "conn_step b s t"

lemma conn_continue:
  "conn_reach a s0 s \<Longrightarrow> conn_step b s u \<Longrightarrow> (b \<Longrightarrow> a) \<Longrightarrow> u = t \<Longrightarrow> conn_reach a s0 t"
  using conn_extend by blast

section \<open>The handler's exit\<close>

definition stuck :: "Conn \<Rightarrow> bool" where
  "stuck s \<longleftrightarrow> \<not> closed (c_sub s) \<and> c_forwarding s \<and> \<not> c_done s \<and> \<not> c_returned s"

lemma stuck_step: "conn_step b s t \<Longrightarrow> stuck s \<Longrightarrow> stuck t"
  by (induction rule: conn_step.induct)
    (auto simp: stuck_def try_send_def dest: recv_frame split: if_splits)

lemma stuck_reach: "conn_reach a s0 s \<Longrightarrow> stuck s0 \<Longrightarrow> stuck s"
  by (induction rule: conn_reach.induct) (auto dest: stuck_step)

section \<open>What the device receives\<close>

text \<open>
  Without timeouts at most one request is under way, and the array holds its data until the
  reply.
\<close>

definition faithful :: "Conn \<Rightarrow> bool" where
  "faithful s \<longleftrightarrow> (\<forall>(r, e) \<in> set (c_replies s). r < c_next s) \<and>
     (\<forall>r. r \<in> snd ` set (c_queue s) \<longrightarrow> r < c_next s \<and> r \<notin> fst ` set (c_replies s)) \<and>
     (case c_input s of
        Reading \<Rightarrow> c_queue s = [] \<and> c_device s = c_reads s
      | InputEnded \<Rightarrow> c_queue s = [] \<and> c_device s = c_reads s
      | Sending n \<Rightarrow> c_queue s = [] \<and> c_reads s = c_device s @ [take n (c_array s)]
      | Waiting r \<Rightarrow>
          Suc r = c_next s \<and>
          (if r \<in> fst ` set (c_replies s) then c_queue s = [] \<and> c_device s = c_reads s
           else \<exists>n. c_queue s = [(n, r)] \<and> c_reads s = c_device s @ [take n (c_array s)]))"

lemma faithful_cong:
  assumes "faithful s" and "c_replies t = c_replies s" and "c_next t = c_next s" and "c_queue t = c_queue s"
    and "c_input t = c_input s" and "c_device t = c_device s" and "c_reads t = c_reads s"
    and "c_array t = c_array s"
  shows "faithful t"
  using assms(1) unfolding faithful_def assms(2-8) .

lemma faithful_step: "conn_step b s t \<Longrightarrow> \<not> b \<Longrightarrow> faithful s \<Longrightarrow> faithful t"
proof (induction rule: conn_step.induct)
  case (input_reply s r e)
  then have "r \<in> fst ` set (c_replies s)" by (metis fst_conv image_eqI)
  then have "c_queue s = [] \<and> c_device s = c_reads s"
    using input_reply by (simp add: faithful_def)
  then show ?case using input_reply by (simp add: faithful_def)
next
  case (writer s n r q e)
  then show ?case by (cases "c_input s") (auto simp: faithful_def split: if_splits)
next
  case (input_send s n)
  then have "c_queue s = []" "\<forall>(r, e) \<in> set (c_replies s). r < c_next s" by (simp_all add: faithful_def)
  then have "c_next s \<notin> fst ` set (c_replies s)" by auto
  then show ?case using input_send by (auto simp: faithful_def)
next
  case (input_read s data)
  then show ?case by (simp add: faithful_def)
next
  case (input_end s)
  then show ?case by (simp add: faithful_def)
next
  case (input_timeout s r)
  then show ?case by simp
qed (erule faithful_cong; simp)+

lemma faithful_reach: "conn_reach a s0 s \<Longrightarrow> \<not> a \<Longrightarrow> faithful s0 \<Longrightarrow> faithful s"
  by (induction rule: conn_reach.induct) (auto dest: faithful_step)

section \<open>Translating newlines\<close>

lemma to_lf_plain: "carriage_return \<notin> set s \<Longrightarrow> replace_all s crlf [newline] = s"
  by (induction s) (auto simp: crlf_def prefix_Cons)

lemma to_lf_line:
  "carriage_return \<notin> set l \<Longrightarrow> replace_all (l @ crlf @ s) crlf [newline] = l @ newline # replace_all s crlf [newline]"
  by (induction l) (auto simp: crlf_def prefix_Cons)

lemma to_crlf_append:
  "replace_all (a @ b) [newline] crlf = replace_all a [newline] crlf @ replace_all b [newline] crlf"
  by (induction a) (auto simp: prefix_Cons)

lemma to_crlf_plain: "newline \<notin> set s \<Longrightarrow> replace_all s [newline] crlf = s"
  by (induction s) (auto simp: prefix_Cons)

text \<open>Every newline of the text follows a carriage return.\<close>

fun crlf_only :: "bool \<Rightarrow> string \<Rightarrow> bool" where
  "crlf_only cr [] = True"
| "crlf_only cr (c # cs) = ((c = newline \<longrightarrow> cr) \<and> crlf_only (c = carriage_return) cs)"

lemma to_crlf_only: "crlf_only cr (replace_all s [newline] crlf)"
proof (induction s arbitrary: cr)
  case (Cons x xs)
  show ?case using Cons.IH by (auto simp: prefix_Cons crlf_def)
qed simp

text \<open>Two messages that do not split a CRLF pair.\<close>

definition split_ok :: "string \<Rightarrow> string \<Rightarrow> bool" where
  "split_ok a b \<longleftrightarrow> \<not> (\<exists>a' b'. a = a' @ [carriage_return] \<and> b = newline # b')"

lemma to_lf_append:
  "split_ok a b \<Longrightarrow>
   replace_all (a @ b) crlf [newline] = replace_all a crlf [newline] @ replace_all b crlf [newline]"
proof (induction "length a" arbitrary: a rule: less_induct)
  case less
  show ?case
  proof (cases a)
    case Nil
    then show ?thesis by simp
  next
    case (Cons x xs)
    show ?thesis
    proof (cases "x = carriage_return")
      case False
      moreover have "split_ok xs b" using less.prems Cons by (auto simp: split_ok_def)
      ultimately show ?thesis using less.hyps [of xs] Cons by (simp add: crlf_def)
    next
      case True
      show ?thesis
      proof (cases xs)
        case Nil
        then have "b = [] \<or> hd b \<noteq> newline" using less.prems Cons True
          by (cases b) (auto simp: split_ok_def)
        then show ?thesis using Cons True Nil by (cases b) (auto simp: crlf_def)
      next
        case xs: (Cons y ys)
        have "split_ok ys b" "split_ok xs b" using less.prems Cons xs by (auto simp: split_ok_def)
        note sok = this
        have "length ys < length a" "length xs < length a" using Cons xs by simp_all
        then have "replace_all (ys @ b) crlf [newline] = replace_all ys crlf [newline] @ replace_all b crlf [newline]"
            "replace_all (xs @ b) crlf [newline] = replace_all xs crlf [newline] @ replace_all b crlf [newline]"
          using less.hyps sok by blast+
        then show ?thesis
          by (cases "y = newline") (simp_all add: Cons xs True crlf_def)
      qed
    qed
  qed
qed

lemma translate_append: "split_ok a b \<Longrightarrow> translate (a @ b) = translate a @ translate b"
  by (simp add: translate_def to_lf_append to_crlf_append)

section \<open>Properties\<close>

text \<open>What a client's terminal is sent for a message has every newline preceded by a carriage return, text
  without a carriage return keeps all its other bytes, and translating messages one by one is
  translating the whole output as long as no message boundary splits a CRLF pair.\<close>

theorem translate_makes_crlf:
  shows "crlf_only False (translate msg) \<and>
    (carriage_return \<notin> set msg \<longrightarrow> filter (\<lambda>c. c \<noteq> carriage_return) (translate msg) = msg) \<and>
    (split_ok msg next_msg \<longrightarrow> translate (msg @ next_msg) = translate msg @ translate next_msg)"
proof -
  have "filter (\<lambda>c. c \<noteq> carriage_return) (replace_all s [newline] crlf) = s" if "carriage_return \<notin> set s" for s
    using that by (induction s) (auto simp: prefix_Cons crlf_def)
  then show ?thesis
    using to_crlf_only translate_append by (auto simp: translate_def to_lf_plain)
qed

theorem translate_makes_crlf_witness:
  "filter (\<lambda>c. c \<noteq> carriage_return) (translate (''ls'' @ [newline])) = ''ls'' @ [newline]"
  using translate_makes_crlf [of "''ls'' @ [newline]" "[]"] by simp

text \<open>A CRLF pair that arrives in two messages reaches the terminal as CR CR LF: the translation works on
  each message alone.\<close>

theorem split_crlf_is_doubled:
  assumes "carriage_return \<notin> set a" and "newline \<notin> set a" and "carriage_return \<notin> set b" and "newline \<notin> set b"
  shows "translate (a @ [carriage_return]) @ translate (newline # b) = a @ [carriage_return, carriage_return, newline] @ b \<and>
    translate (a @ crlf @ b) = a @ crlf @ b"
proof -
  have 1: "replace_all (a @ [carriage_return]) crlf [newline] = a @ [carriage_return]"
    using assms(1) by (induction a) (auto simp: crlf_def prefix_Cons)
  have 2: "replace_all (newline # b) crlf [newline] = newline # b"
    by (rule to_lf_plain) (use assms(3) in simp)
  have 3: "replace_all (newline # b) [newline] crlf = crlf @ b"
    using to_crlf_plain [OF assms(4)] by simp
  have 4: "replace_all (a @ crlf @ b) crlf [newline] = a @ newline # b"
    using to_lf_line [OF assms(1), of b] to_lf_plain [OF assms(3)] by simp
  have 5: "replace_all (a @ [carriage_return]) [newline] crlf = a @ [carriage_return]"
    by (rule to_crlf_plain) (use assms(2) in simp)
  have 6: "replace_all (a @ newline # b) [newline] crlf = a @ crlf @ b"
    using to_crlf_append [of a "newline # b"] to_crlf_plain [OF assms(2)] 3 by simp
  show ?thesis unfolding translate_def 1 2 3 4 5 6 by (simp add: crlf_def)
qed

theorem split_crlf_is_doubled_witness:
  "translate (''ok'' @ [carriage_return]) @ translate (newline # ''id'') =
     ''ok'' @ [carriage_return, carriage_return, newline] @ ''id''"
  using split_crlf_is_doubled [of "''ok''" "''id''"] by simp


text \<open>C40. After a write timeout the next read overwrites the array the earlier request still refers to, so
  the device can be sent the second input twice and the first never.\<close>

theorem timeout_lets_input_be_overwritten:
  "\<exists>s. conn_reach True new_conn s \<and> c_reads s = [''on'', ''up''] \<and> c_device s = [''up'', ''up'']"
proof -
  let ?a = "''on'' @ drop 2 zero_array" and ?b = "''up'' @ drop 2 zero_array"
  let ?at = "\<lambda>scr arr inp q rs dev rds n. new_conn\<lparr>c_screen := scr, c_array := arr, c_input := inp, c_queue := q,
    c_replies := rs, c_device := dev, c_reads := rds, c_next := n\<rparr>"
  let ?msg = "''[write timeout]'' @ [newline]"
  have "conn_reach True new_conn (?at [] ?a (Sending 2) [] [] [] [''on''] 0)"
    by (rule conn_continue [OF conn_refl input_read [where data = "''on''"]]) (simp_all add: new_conn_def numeral_2_eq_2)
  then have "conn_reach True new_conn (?at [] ?a (Waiting 0) [(2, 0)] [] [] [''on''] 1)"
    by (rule conn_continue [OF _ input_send]) (simp_all add: new_conn_def numeral_2_eq_2)
  then have "conn_reach True new_conn (?at ?msg ?a Reading [(2, 0)] [] [] [''on''] 1)"
    by (rule conn_continue [OF _ input_timeout]) (simp_all add: new_conn_def numeral_2_eq_2)
  then have "conn_reach True new_conn (?at ?msg ?b (Sending 2) [(2, 0)] [] [] [''on'', ''up''] 1)"
    by (rule conn_continue [OF _ input_read [where data = "''up''"]]) (simp_all add: new_conn_def numeral_2_eq_2)
  then have "conn_reach True new_conn (?at ?msg ?b (Sending 2) [] [(0, None)] [''up''] [''on'', ''up''] 1)"
    by (rule conn_continue [OF _ writer [where e = None and n = 2 and r = 0 and q = "[]"]]) (simp_all add: new_conn_def numeral_2_eq_2)
  then have "conn_reach True new_conn (?at ?msg ?b (Waiting 1) [(2, 1)] [(0, None)] [''up''] [''on'', ''up''] 2)"
    by (rule conn_continue [OF _ input_send]) (simp_all add: new_conn_def numeral_2_eq_2)
  then have "conn_reach True new_conn (?at ?msg ?b (Waiting 1) [] [(1, None), (0, None)] [''up'', ''up''] [''on'', ''up''] 2)"
    by (rule conn_continue [OF _ writer [where e = None and n = 2 and r = 1 and q = "[]"]]) (simp_all add: new_conn_def numeral_2_eq_2)
  then show ?thesis by (intro exI conjI) (assumption, simp_all)
qed

text \<open>C38. The handler of a connection never returns: \<open>done\<close> is closed only when the subscription is, and only
  the handler's own deferred \<open>Unsubscribe\<close> closes that, so every connection leaves its goroutines
  and its subscription behind, also after the client has gone.\<close>

theorem handler_never_returns:
  assumes "conn_reach timeouts new_conn s"
  shows "\<not> c_returned s \<and> \<not> c_done s \<and> \<not> closed (c_sub s)"
proof -
  have "stuck new_conn" by (simp add: stuck_def new_conn_def)
  then show ?thesis using stuck_reach [OF assms] by (simp add: stuck_def)
qed

section \<open>Witnesses\<close>

lemma one_read:
  "conn_reach False new_conn (new_conn\<lparr>c_array := ''ls'' @ drop 2 zero_array, c_input := Sending 2, c_reads := [''ls'']\<rparr>)"
  by (rule conn_continue [OF conn_refl input_read [where data = "''ls''"]]) (simp_all add: new_conn_def numeral_2_eq_2)


theorem handler_never_returns_witness:
  "\<not> c_returned (new_conn\<lparr>c_array := ''ls'' @ drop 2 zero_array, c_input := Sending 2, c_reads := [''ls'']\<rparr>)"
  using handler_never_returns [OF one_read] by simp

end
