(* ===== verification/Notify.thy ===== *)
theory Notify
  imports Utf8 HttpApi
begin

text \<open>
  \<open>internal/notify/toast.go\<close> and \<open>internal/http/notify_handler.go\<close>: a notification is put into an XML document,
  the document into a PowerShell script, and the script, encoded as UTF-16 and base64, on a command line.
  The readers at the other ends (a base64 decoder, UTF-16 code units, XML character data) are specified
  here to state that the text arrives.
\<close>

section \<open>The document\<close>

abbreviation quote :: char where
  "quote \<equiv> CHR 0x22"

abbreviation apostrophe :: char where
  "apostrophe \<equiv> CHR 0x27"

text \<open>\<open>strings.Builder.WriteRune\<close> of a rune up to 127 writes that byte.\<close>

definition escape_rune :: "nat \<Rightarrow> string" where
  "escape_rune r =
     (if r = 38 then ''&amp;''
      else if r = 60 then ''&lt;''
      else if r = 62 then ''&gt;''
      else if r = 34 then ''&quot;''
      else if r = 39 then ''&apos;''
      else if r > 127 then ''&#'' @ nat_dec r @ '';''
      else [char_of r])"

definition xmlEscapeText :: "string \<Rightarrow> string" where
  "xmlEscapeText s = concat (map escape_rune (runes s))"

definition quoted :: "string \<Rightarrow> string" where
  "quoted s = quote # s @ [quote]"

definition toastXML :: "string \<Rightarrow> string \<Rightarrow> string \<Rightarrow> string" where
  "toastXML title content duration = join [newline]
     [''<toast activationType='' @ quoted ''protocol'' @ '' duration='' @ quoted duration @ ''>'',
      ''    <visual>'',
      ''        <binding template='' @ quoted ''ToastGeneric'' @ ''>'',
      ''            <text id='' @ quoted ''1'' @ ''>'' @ xmlEscapeText title @ ''</text>'',
      ''            <text id='' @ quoted ''2'' @ ''>'' @ xmlEscapeText content @ ''</text>'',
      ''        </binding>'',
      ''    </visual>'',
      ''    <audio src='' @ quoted ''ms-winsoundevent:Notification.Default'' @ '' loop='' @ quoted ''false'' @ ''/>'',
      ''</toast>'']"

section \<open>The script\<close>

definition appID :: string where
  "appID = ''SerialGateway.Notifier''"

definition script_head :: "string list" where
  "script_head =
     ['''',
      ''[Windows.UI.Notifications.ToastNotificationManager, Windows.UI.Notifications, ContentType = WindowsRuntime] | Out-Null'',
      ''[Windows.UI.Notifications.ToastNotification, Windows.UI.Notifications, ContentType = WindowsRuntime] | Out-Null'',
      ''[Windows.Data.Xml.Dom.XmlDocument, Windows.Data.Xml.Dom.XmlDocument, ContentType = WindowsRuntime] | Out-Null'',
      '''',
      ''$template = @'' @ [apostrophe]]"

definition script_tail :: "string list" where
  "script_tail =
     [[apostrophe] @ ''@'',
      '''',
      ''$xml = New-Object Windows.Data.Xml.Dom.XmlDocument'',
      ''$xml.LoadXml($template)'',
      ''$toast = New-Object Windows.UI.Notifications.ToastNotification $xml'',
      ''[Windows.UI.Notifications.ToastNotificationManager]::CreateToastNotifier('' @ [apostrophe] @ appID @
        [apostrophe] @ '').Show($toast)'',
      '''']"

definition powershellScript :: "string \<Rightarrow> string" where
  "powershellScript xml = join [newline] (script_head @ [xml] @ script_tail)"

section \<open>The command line\<close>

text \<open>\<open>base64.StdEncoding.EncodeToString\<close>: three bytes as four characters, the last group padded.\<close>

definition b64_alphabet :: string where
  "b64_alphabet = ''ABCDEFGHIJKLMNOPQRSTUVWXYZabcdefghijklmnopqrstuvwxyz0123456789+/''"

definition b64_chars :: "nat \<Rightarrow> string" where
  "b64_chars n = map (\<lambda>d. b64_alphabet ! (n div d mod 64)) [262144, 4096, 64, 1]"

fun base64 :: "bytes \<Rightarrow> string" where
  "base64 [] = []"
| "base64 [a] = take 2 (b64_chars (of_char a * 65536)) @ ''==''"
| "base64 [a, b] = take 3 (b64_chars (of_char a * 65536 + of_char b * 256)) @ ''=''"
| "base64 (a # b # c # s) = b64_chars (of_char a * 65536 + of_char b * 256 + of_char c) @ base64 s"

text \<open>\<open>uint16(r)\<close> keeps the low sixteen bits of a rune; the low byte is written first.\<close>

definition utf16le_unit :: "nat \<Rightarrow> bytes" where
  "utf16le_unit r = (let u = r mod 65536 in [char_of (u mod 256), char_of (u div 256)])"

definition encodeUTF16LEBase64 :: "string \<Rightarrow> string" where
  "encodeUTF16LEBase64 s = base64 (concat (map utf16le_unit (runes s)))"

text \<open>\<open>run\<close> is the process: an error and what it wrote to its standard error.\<close>

definition showImpl ::
  "(string list \<Rightarrow> (error \<times> string) option) \<Rightarrow> string \<Rightarrow> string \<Rightarrow> string \<Rightarrow> error option" where
  "showImpl run title content duration =
     (let encoded = encodeUTF16LEBase64 (powershellScript (toastXML title content duration)) in
      case run [''PowerShell'', ''-NoProfile'', ''-NonInteractive'', ''-ExecutionPolicy'', ''Bypass'',
                ''-EncodedCommand'', encoded] of
        None \<Rightarrow> None
      | Some (e, stderr) \<Rightarrow> Some (''toast push failed: '' @ e @ [newline] @ ''stderr: '' @ stderr))"

section \<open>The handler\<close>

record notifyRequest =
  nr_Title :: string
  nr_Content :: string
  nr_Duration :: string

text \<open>\<open>decode\<close> is the JSON decoder for the request.\<close>

definition handleNotify ::
  "(bytes \<Rightarrow> notifyRequest option) \<Rightarrow> (string list \<Rightarrow> (error \<times> string) option) \<Rightarrow> Request \<Rightarrow> Response" where
  "handleNotify decode run r =
     (if Method r \<noteq> ''POST'' then writeJSON 405 (error_json ''method not allowed'')
      else (case decode (Body r) of
          None \<Rightarrow> writeJSON 400 (error_json ''invalid request body'')
        | Some q \<Rightarrow>
            if nr_Title q = '''' \<or> nr_Content q = ''''
            then writeJSON 400 (error_json ''title and content are required'')
            else (let duration = default_to '''' ''short'' (nr_Duration q) in
              if duration \<noteq> ''short'' \<and> duration \<noteq> ''long''
              then writeJSON 400 (error_json (''duration must be '' @ [apostrophe] @ ''short'' @ [apostrophe] @
                     '' or '' @ [apostrophe] @ ''long'' @ [apostrophe]))
              else (case showImpl run (nr_Title q) (nr_Content q) duration of
                  Some e \<Rightarrow> writeJSON 500 (error_json e)
                | None \<Rightarrow> writeJSON 200
                    (JObj [(''status'', JStr ''dispatched''), (''duration'', JStr duration)])))))"

section \<open>The readers at the other end\<close>

definition b64_number :: "string \<Rightarrow> nat option" where
  "b64_number cs = fold (\<lambda>c acc. case (acc, index_byte b64_alphabet c) of
       (Some n, Some v) \<Rightarrow> Some (n * 64 + v) | _ \<Rightarrow> None) cs (Some 0)"

definition three_bytes :: "nat \<Rightarrow> bytes" where
  "three_bytes n = [char_of (n div 65536), char_of (n div 256 mod 256), char_of (n mod 256)]"

fun unbase64 :: "string \<Rightarrow> bytes option" where
  "unbase64 [] = Some []"
| "unbase64 (c0 # c1 # c2 # c3 # s) =
     (if [c2, c3] @ s = ''=='' then map_option (\<lambda>n. take 1 (three_bytes (n * 4096))) (b64_number [c0, c1])
      else if c3 # s = ''='' then map_option (\<lambda>n. take 2 (three_bytes (n * 64))) (b64_number [c0, c1, c2])
      else (case (b64_number [c0, c1, c2, c3], unbase64 s) of
          (Some n, Some bs) \<Rightarrow> Some (three_bytes n @ bs)
        | _ \<Rightarrow> None))"
| "unbase64 _ = None"

fun utf16le_units :: "bytes \<Rightarrow> nat list option" where
  "utf16le_units [] = Some []"
| "utf16le_units (a # b # s) = map_option (Cons (of_char a + 256 * of_char b)) (utf16le_units s)"
| "utf16le_units [a] = None"

text \<open>What \<open>-EncodedCommand\<close> makes of its argument: the code units of the script.\<close>

definition powershell_decode :: "string \<Rightarrow> nat list option" where
  "powershell_decode s = Option.bind (unbase64 s) utf16le_units"

text \<open>
  XML character data as code points: the five named references, decimal references, and any other
  character but \<open><\<close> and \<open>&\<close>.
\<close>

definition named_references :: "(string \<times> nat) list" where
  "named_references = [(''amp'', 38), (''lt'', 60), (''gt'', 62), (''quot'', 34), (''apos'', 39)]"

definition reference :: "string \<Rightarrow> nat option" where
  "reference name =
     (case map_of named_references name of
        Some r \<Rightarrow> Some r
      | None \<Rightarrow> if has_prefix name ''#'' then map_option nat (parse_nat (drop 1 name)) else None)"

function xml_text :: "string \<Rightarrow> nat list option" where
  "xml_text [] = Some []"
| "xml_text (c # s) =
     (if c = CHR ''<'' then None
      else if c = CHR ''&'' then
        (case index_byte s CHR '';'' of
           None \<Rightarrow> None
         | Some i \<Rightarrow>
             (case (reference (take i s), xml_text (drop (Suc i) s)) of
                (Some r, Some rs) \<Rightarrow> Some (r # rs)
              | _ \<Rightarrow> None))
      else map_option (Cons (of_char c)) (xml_text s))"
  by pat_completeness auto
termination
  by (relation "measure length") auto

section \<open>Lemmas on the encoding\<close>

lemma b64_alphabet_inverse: "v < 64 \<Longrightarrow> index_byte b64_alphabet (b64_alphabet ! v) = Some v"
proof -
  have "list_all (\<lambda>v. index_byte b64_alphabet (b64_alphabet ! v) = Some v) [0..<64]" by code_simp
  then show "v < 64 \<Longrightarrow> index_byte b64_alphabet (b64_alphabet ! v) = Some v" by (simp add: list_all_iff)
qed

lemma b64_alphabet_no_pad: "v < 64 \<Longrightarrow> b64_alphabet ! v \<noteq> CHR ''=''"
proof -
  have "list_all (\<lambda>v. b64_alphabet ! v \<noteq> CHR ''='') [0..<64]" by code_simp
  then show "v < 64 \<Longrightarrow> b64_alphabet ! v \<noteq> CHR ''=''" by (simp add: list_all_iff)
qed

lemma b64_value: "index_byte b64_alphabet (b64_alphabet ! (n mod 64)) = Some (n mod 64)"
  by (rule b64_alphabet_inverse) simp

lemma b64_digits:
  fixes n :: nat
  assumes "n < 16777216"
  shows "n div 262144 mod 64 * 64 + n div 4096 mod 64 = n div 4096"
    and "n div 4096 * 64 + n div 64 mod 64 = n div 64"
    and "n div 64 * 64 + n mod 64 = n"
proof -
  have "n div 262144 mod 64 = n div 262144" using assms by simp
  then show "n div 262144 mod 64 * 64 + n div 4096 mod 64 = n div 4096"
    using div_mult_mod_eq [of "n div 4096" 64] by (simp only: div_mult2_eq [symmetric]) simp
  show "n div 4096 * 64 + n div 64 mod 64 = n div 64"
    using div_mult_mod_eq [of "n div 64" 64] by (simp only: div_mult2_eq [symmetric]) simp
  show "n div 64 * 64 + n mod 64 = n" by (rule div_mult_mod_eq)
qed

lemma b64_chars_list:
  "b64_chars n = [b64_alphabet ! (n div 262144 mod 64), b64_alphabet ! (n div 4096 mod 64),
     b64_alphabet ! (n div 64 mod 64), b64_alphabet ! (n mod 64)]"
  by (simp add: b64_chars_def)

lemma b64_number_Cons:
  "b64_number cs = Some n \<Longrightarrow> b64_number (cs @ [b64_alphabet ! (m mod 64)]) = Some (n * 64 + m mod 64)"
  by (simp add: b64_number_def b64_value)

lemma b64_numbers:
  assumes "n < 16777216"
  shows "b64_number (take 2 (b64_chars n)) = Some (n div 4096)"
    and "b64_number (take 3 (b64_chars n)) = Some (n div 64)"
    and "b64_number (b64_chars n) = Some n"
proof -
  have "b64_number [] = Some 0" by (simp add: b64_number_def)
  from b64_number_Cons [OF this, of "n div 262144"]
  have "b64_number [b64_alphabet ! (n div 262144 mod 64)] = Some (n div 262144 mod 64)"
    by (simp only: append.simps mult_0 add_0)
  from b64_number_Cons [OF this, of "n div 4096", unfolded b64_digits(1) [OF assms]]
  have two: "b64_number [b64_alphabet ! (n div 262144 mod 64), b64_alphabet ! (n div 4096 mod 64)] = Some (n div 4096)"
    by (simp only: append.simps)
  from b64_number_Cons [OF this, of "n div 64", unfolded b64_digits(2) [OF assms]]
  have three: "b64_number [b64_alphabet ! (n div 262144 mod 64), b64_alphabet ! (n div 4096 mod 64),
      b64_alphabet ! (n div 64 mod 64)] = Some (n div 64)"
    by (simp only: append.simps)
  from b64_number_Cons [OF this, of n, unfolded b64_digits(3) [OF assms]]
  show "b64_number (b64_chars n) = Some n" by (simp only: b64_chars_list append.simps)
  show "b64_number (take 2 (b64_chars n)) = Some (n div 4096)"
    using two by (simp add: b64_chars_list numeral_2_eq_2)
  show "b64_number (take 3 (b64_chars n)) = Some (n div 64)"
    using three by (simp add: b64_chars_list numeral_3_eq_3)
qed

lemma byte_less: "(of_char (a :: char) :: nat) < 256"
  by (rule nat_of_char_less_256)

lemma three_digits:
  fixes x y z :: nat
  assumes "x < 256" and "y < 256" and "z < 256"
  shows "(x * 65536 + y * 256 + z) div 65536 = x" and "(x * 65536 + y * 256 + z) div 256 mod 256 = y"
    and "(x * 65536 + y * 256 + z) mod 256 = z" and "x * 65536 + y * 256 + z < 16777216"
proof -
  have n: "x * 65536 + y * 256 + z = (x * 256 + y) * 256 + z" by simp
  have d: "(x * 65536 + y * 256 + z) div 256 = x * 256 + y" unfolding n using assms(3) by simp
  have "(x * 65536 + y * 256 + z) div 65536 = (x * 65536 + y * 256 + z) div 256 div 256"
    by (simp only: div_mult2_eq [symmetric]) simp
  then show "(x * 65536 + y * 256 + z) div 65536 = x" unfolding d using assms(2) by simp
  show "(x * 65536 + y * 256 + z) div 256 mod 256 = y" unfolding d using assms(2) by simp
  show "(x * 65536 + y * 256 + z) mod 256 = z"
    unfolding n by (simp only: mod_mult_self3) (use assms(3) in simp)
  show "x * 65536 + y * 256 + z < 16777216" using assms by simp
qed

lemma three_bytes_of:
  "three_bytes (of_char a * 65536 + of_char b * 256 + of_char c) = [a, b, c]"
  unfolding three_bytes_def by (simp only: three_digits [OF byte_less byte_less byte_less]) simp

lemma unbase64_base64: "unbase64 (base64 s) = Some s"
proof (induction s rule: base64.induct)
  case (2 a)
  define n :: nat where "n = of_char a * 65536"
  have n: "n < 16777216" "n div 4096 * 4096 = n" "three_bytes n = [a, CHR 0x00, CHR 0x00]"
    using three_digits(4) [OF byte_less byte_less byte_less, of a "CHR 0x00" "CHR 0x00"]
      three_bytes_of [of a "CHR 0x00" "CHR 0x00"]
    by (simp_all add: n_def)
  obtain d0 d1 d2 d3 where d: "b64_chars n = [d0, d1, d2, d3]"
    using b64_chars_list [of n] by simp
  have "base64 [a] = [d0, d1] @ ''==''" by (simp add: d n_def [symmetric] numeral_2_eq_2)
  then show ?case using b64_numbers(1) [OF n(1)] n by (simp add: d numeral_2_eq_2)
next
  case (3 a b)
  define n :: nat where "n = of_char a * 65536 + of_char b * 256"
  have n: "n < 16777216" "n div 64 * 64 = n" "three_bytes n = [a, b, CHR 0x00]"
    using three_digits(4) [OF byte_less byte_less byte_less, of a b "CHR 0x00"]
      three_bytes_of [of a b "CHR 0x00"]
    by (simp_all add: n_def)
  obtain d0 d1 d2 d3 where d: "b64_chars n = [d0, d1, d2, d3]" and pad: "d2 \<noteq> CHR ''=''"
    using b64_chars_list [of n] b64_alphabet_no_pad [of "n div 64 mod 64"] by simp
  have "base64 [a, b] = [d0, d1, d2] @ ''=''" by (simp add: d n_def [symmetric] numeral_3_eq_3)
  then show ?case using b64_numbers(2) [OF n(1)] n pad by (simp add: d numeral_2_eq_2 numeral_3_eq_3)
next
  case (4 a b c s)
  define n :: nat where "n = of_char a * 65536 + of_char b * 256 + of_char c"
  have num: "b64_number (b64_chars n) = Some n" "three_bytes n = [a, b, c]"
    unfolding n_def
    using b64_numbers(3) [OF three_digits(4) [OF byte_less byte_less byte_less]] three_bytes_of by simp_all
  obtain d0 d1 d2 d3 where d: "b64_chars n = [d0, d1, d2, d3]" and pad: "d3 \<noteq> CHR ''=''"
    using b64_chars_list [of n] b64_alphabet_no_pad [of "n mod 64"] by simp
  have "base64 (a # b # c # s) = d0 # d1 # d2 # d3 # base64 s"
    by (simp add: d n_def [symmetric])
  then show ?case using 4 num pad by (simp add: d)
qed simp

lemma utf16le_unit_read: "utf16le_units (utf16le_unit r @ s) = map_option (Cons (r mod 65536)) (utf16le_units s)"
proof -
  have "r mod 65536 div 256 < 256" by (simp add: less_mult_imp_div_less)
  then have "(of_char (char_of (r mod 65536 mod 256) :: char) :: nat) + 256 * of_char (char_of (r mod 65536 div 256) :: char) =
      r mod 65536"
    using mod_mult_div_eq [of "r mod 65536" 256] by (simp only: of_char_of) simp
  then show ?thesis by (simp only: utf16le_unit_def Let_def append.simps utf16le_units.simps)
qed

lemma utf16le_round: "utf16le_units (concat (map utf16le_unit rs)) = Some (map (\<lambda>r. r mod 65536) rs)"
proof (induction rs)
  case (Cons r rs)
  then show ?case by (simp only: list.map concat.simps utf16le_unit_read) simp
qed simp

lemma decode_encode: "powershell_decode (encodeUTF16LEBase64 s) = Some (map (\<lambda>r. r mod 65536) (runes s))"
  by (simp add: powershell_decode_def encodeUTF16LEBase64_def unbase64_base64 utf16le_round)

section \<open>Lemmas on the document and the script\<close>

text \<open>A byte that is neither outside ASCII nor able to end an element, an attribute or a quoted string.\<close>

definition harmless :: "char \<Rightarrow> bool" where
  "harmless c \<longleftrightarrow> is_ascii c \<and> c \<notin> {CHR ''<'', CHR ''>'', quote, apostrophe}"

lemma digits_harmless: "list_all harmless (nat_dec n)"
  using nat_dec_digits by (fastforce simp: list_all_iff harmless_def is_ascii_def is_digit_def)

lemma char_of_harmless:
  fixes r :: nat
  assumes "r < 128" and "r \<notin> {60, 62, 34, 39}"
  shows "harmless (char_of r)"
proof -
  have o: "of_char (char_of r :: char) = r" using assms(1) by (simp add: of_char_of)
  have "char_of r \<noteq> c" if "of_char c \<in> {60, 62, 34, 39 :: nat}" for c :: char
    using that o assms(2) by auto
  then show ?thesis using assms(1) by (simp add: harmless_def is_ascii_def o)
qed

lemma escape_rune_harmless: "list_all harmless (escape_rune r)"
proof (cases "r \<in> {38, 60, 62, 34, 39} \<or> r > 127")
  case True
  then show ?thesis
    using digits_harmless [of r] by (auto simp: escape_rune_def) (simp_all add: harmless_def is_ascii_def)
next
  case False
  then show ?thesis using char_of_harmless [of r] by (auto simp: escape_rune_def)
qed

lemma escape_harmless: "list_all harmless (xmlEscapeText s)"
  using escape_rune_harmless by (auto simp: xmlEscapeText_def list_all_iff)

lemma xml_text_decimal: "xml_text (''&#'' @ nat_dec r @ '';'' @ s) = map_option (Cons r) (xml_text s)"
proof -
  have "CHR '';'' \<notin> set (''#'' @ nat_dec r)"
    using nat_dec_digits [of "CHR '';''" r] by (auto simp: is_digit_def)
  from index_byte_found [OF this, of s]
  have i: "index_byte (''#'' @ nat_dec r @ CHR '';'' # s) CHR '';'' = Some (Suc (length (nat_dec r)))" by simp
  moreover have "reference (''#'' @ nat_dec r) = Some r"
    by (simp add: reference_def named_references_def)
  ultimately show ?thesis by (cases "xml_text s") simp_all
qed

lemma xml_text_escape: "xml_text (escape_rune r @ s) = map_option (Cons r) (xml_text s)"
proof (cases "r \<in> {38, 60, 62, 34, 39}")
  case True
  then show ?thesis
    by (cases "xml_text s") (auto simp: escape_rune_def reference_def named_references_def)
next
  case False
  show ?thesis
  proof (cases "r > 127")
    case True
    then have "escape_rune r @ s = ''&#'' @ nat_dec r @ '';'' @ s" using False by (simp add: escape_rune_def)
    then show ?thesis by (simp only: xml_text_decimal)
  next
    case small: False
    have o: "of_char (char_of r :: char) = r" using small by (simp add: of_char_of)
    have "char_of r \<noteq> c" if "of_char c \<noteq> r" for c :: char using that o by metis
    from this [of "CHR ''<''"] this [of "CHR ''&''"]
    have n: "char_of r \<noteq> CHR ''<''" "char_of r \<noteq> CHR ''&''" using False by simp_all
    have "escape_rune r @ s = char_of r # s" using False small by (simp add: escape_rune_def)
    moreover have "r mod 256 = r" using small by simp
    ultimately show ?thesis by (simp add: n)
  qed
qed

lemma xml_text_runes: "xml_text (concat (map escape_rune rs)) = Some rs"
proof (induction rs)
  case (Cons r rs)
  then show ?case by (simp only: list.map concat.simps xml_text_escape) simp
qed simp

lemma split_on_two: "split_on c (s @ c # t) = split_on c s @ split_on c t"
proof (induction s)
  case (Cons x s)
  then show ?case by (cases "split_on c s") auto
qed simp

lemma split_on_parts: "w \<in> set (split_on c s) \<Longrightarrow> set w \<subseteq> set s"
proof (induction s arbitrary: w)
  case (Cons x s)
  then show ?case by (cases "split_on c s") (fastforce split: if_splits)+
qed simp

lemma split_join:
  "ls \<noteq> [] \<Longrightarrow> split_on c (join [c] ls) = concat (map (split_on c) ls)"
proof (induction ls rule: induct_list012)
  case (3 l k ls)
  then show ?case by (simp add: split_on_two)
qed simp_all

lemma set_join: "set (join sep ls) \<subseteq> set sep \<union> \<Union> (set (map set ls))"
  by (induction sep ls rule: join.induct) auto

lemma escape_is_ascii: "c \<in> set (xmlEscapeText s) \<Longrightarrow> is_ascii c \<and> c \<noteq> apostrophe"
  using escape_harmless [of s] by (auto simp: list_all_iff harmless_def)

definition plain_char :: "char \<Rightarrow> bool" where
  "plain_char c \<longleftrightarrow> is_ascii c \<and> c \<noteq> apostrophe"

lemma join_all: "list_all P sep \<Longrightarrow> list_all (list_all P) ls \<Longrightarrow> list_all P (join sep ls)"
  by (induction sep ls rule: join.induct) auto

lemma escape_plain [simp]: "list_all plain_char (xmlEscapeText s)"
  using escape_is_ascii by (auto simp: list_all_iff plain_char_def)

lemma toastXML_plain:
  assumes "list_all plain_char duration"
  shows "list_all plain_char (toastXML title content duration)"
proof -
  have parts: "list_all (list_all plain_char)
     [''<toast activationType='', ''protocol'', '' duration='', ''    <visual>'', ''        <binding template='',
      ''ToastGeneric'', ''            <text id='', ''1'', ''2'', ''</text>'', ''        </binding>'', ''    </visual>'',
      ''    <audio src='', ''ms-winsoundevent:Notification.Default'', '' loop='', ''false'', ''/>'', ''</toast>'',
      ''>'', [quote], [newline]]"
    by code_simp
  show ?thesis
    unfolding toastXML_def quoted_def
    by (rule join_all) (use parts assms in simp_all)
qed

lemma powershellScript_ascii:
  assumes "list_all plain_char xml"
  shows "list_all is_ascii (powershellScript xml)"
proof -
  have "list_all (list_all is_ascii) script_head" "list_all (list_all is_ascii) script_tail"
    by code_simp+
  moreover have "list_all is_ascii xml" using assms by (auto simp: list_all_iff plain_char_def)
  ultimately show ?thesis
    unfolding powershellScript_def by (intro join_all) (simp_all add: is_ascii_def)
qed

definition closes_here_string :: "string \<Rightarrow> bool" where
  "closes_here_string l \<longleftrightarrow> has_prefix l (apostrophe # ''@'')"

lemma here_string_lines:
  assumes "list_all plain_char xml"
  shows "filter closes_here_string (split_on newline (powershellScript xml)) = [apostrophe # ''@'']"
proof -
  have "filter closes_here_string (concat (map (split_on newline) script_head)) = []"
    "filter closes_here_string (concat (map (split_on newline) script_tail)) = [apostrophe # ''@'']"
    by code_simp+
  moreover have "\<not> closes_here_string l" if "l \<in> set (split_on newline xml)" for l
  proof
    assume "closes_here_string l"
    then have "apostrophe \<in> set l" by (auto simp: closes_here_string_def prefix_def)
    then show False using split_on_parts [OF that] assms by (auto simp: list_all_iff plain_char_def)
  qed
  then have "filter closes_here_string (split_on newline xml) = []" by (simp add: filter_empty_conv)
  moreover have "script_head @ [xml] @ script_tail \<noteq> []" by simp
  ultimately show ?thesis
    unfolding powershellScript_def by (simp add: split_join)
qed

lemma duration_plain: "duration \<in> {''short'', ''long''} \<Longrightarrow> list_all plain_char duration"
  by (auto simp: plain_char_def is_ascii_def)

section \<open>Properties\<close>


definition hostile_title :: string where
  "hostile_title = [newline, apostrophe] @ ''@'' @ [newline] @ ''Remove-Item *''"


text \<open>The encoder alone keeps only sixteen bits of a code point: outside the basic plane it does not produce the
  surrogate pair UTF-16 asks for. The program only ever gives it ASCII.\<close>

theorem encoder_truncates_astral_runes:
  "powershell_decode (encodeUTF16LEBase64 [CHR 0xF0, CHR 0x9F, CHR 0x98, CHR 0x80]) = Some [0xF600]"
  by (simp add: decode_encode second_ok_def is_cont_def)

text \<open>A notification is handed to the process exactly when the request is a POST with a title, a content and a
  duration of \<open>short\<close>, \<open>long\<close> or none (which means \<open>short\<close>); the answer reports the process's result.\<close>

theorem notify_accepts:
  assumes "Method r = ''POST''" and "decode (Body r) = Some q" and "nr_Title q \<noteq> ''''" and "nr_Content q \<noteq> ''''"
    and "nr_Duration q \<in> {'''', ''short'', ''long''}"
  shows "handleNotify decode run r =
    (case showImpl run (nr_Title q) (nr_Content q) (default_to '''' ''short'' (nr_Duration q)) of
       Some e \<Rightarrow> writeJSON 500 (error_json e)
     | None \<Rightarrow> writeJSON 200 (JObj [(''status'', JStr ''dispatched''),
         (''duration'', JStr (default_to '''' ''short'' (nr_Duration q)))]))"
proof -
  have "default_to '''' ''short'' (nr_Duration q) \<in> {''short'', ''long''}"
    using assms(5) by (auto simp: default_to_def)
  then have "\<not> (default_to '''' ''short'' (nr_Duration q) \<noteq> ''short'' \<and>
      default_to '''' ''short'' (nr_Duration q) \<noteq> ''long'')"
    by blast
  then show ?thesis
    using assms(1-4) unfolding handleNotify_def Let_def by (simp only: option.case if_False simp_thms)
qed

end
