(* ===== verification/Capture.thy ===== *)
theory Capture
  imports SessionRuns Recorder
begin

text \<open>
  A serial session and the file recorder attached to it, run together: every interleaving of the session's
  goroutines with the recorder's. The composition refines an abstract tape (\<open>tape_step\<close>): what was offered to
  it, what it kept and what it has stored, with a queue of 256 chunks in between.
\<close>

section \<open>The abstract tape\<close>

record Tape =
  tape_offered :: "bytes list"
  tape_kept :: "bytes list"
  tape_stored :: "bytes list"

definition tape_queue :: nat where
  "tape_queue = 256"

text \<open>A chunk is kept unless it is empty or the queue is full; kept chunks are stored in order.\<close>

inductive tape_step :: "Tape \<Rightarrow> Tape \<Rightarrow> bool" where
  tape_idle: "tape_step t t"
| tape_keep: "d \<noteq> [] \<Longrightarrow> length (tape_kept t) < length (tape_stored t) + tape_queue \<Longrightarrow>
     tape_step t (t\<lparr>tape_offered := tape_offered t @ [d], tape_kept := tape_kept t @ [d]\<rparr>)"
| tape_drop: "d = [] \<or> length (tape_kept t) = length (tape_stored t) + tape_queue \<Longrightarrow>
     tape_step t (t\<lparr>tape_offered := tape_offered t @ [d]\<rparr>)"
| tape_store: "tape_kept t = tape_stored t @ d # ds \<Longrightarrow>
     tape_step t (t\<lparr>tape_stored := tape_stored t @ [d]\<rparr>)"

section \<open>The composition\<close>

record Captured =
  the_session :: Session
  the_run :: RecorderRun

text \<open>The call \<open>recorder.Write(data)\<close> as a step of the recorder.\<close>

definition write_chunk :: "bytes \<Rightarrow> RecorderRun \<Rightarrow> RecorderRun" where
  "write_chunk d r = r\<lparr>recorder := Write d (recorder r),
     accepted := accepted r @ (if takes d (recorder r) then [d] else [])\<rparr>"

text \<open>
  The recorder is number \<open>h\<close>. A step of the session that calls its recorder is a step of both when the
  recorder is this one; the recorder's other steps are its own and its owner's (\<open>Stop\<close>).
\<close>

inductive capture_step :: "nat \<Rightarrow> Captured \<Rightarrow> Captured \<Rightarrow> bool" for h where
  session_only: "session_step l (the_session c) s \<Longrightarrow>
     filter (\<lambda>(k, d). k = h) (recorded s) = filter (\<lambda>(k, d). k = h) (recorded (the_session c)) \<Longrightarrow>
     capture_step h c (c\<lparr>the_session := s\<rparr>)"
| session_writes: "session_step l (the_session c) s \<Longrightarrow> recorded s = recorded (the_session c) @ [(h, d)] \<Longrightarrow>
     capture_step h c (c\<lparr>the_session := s, the_run := write_chunk d (the_run c)\<rparr>)"
| recorder_alone: "recorder_step (the_run c) r \<Longrightarrow> accepted r = accepted (the_run c) \<Longrightarrow>
     capture_step h c (c\<lparr>the_run := r\<rparr>)"

inductive capture_reach :: "nat \<Rightarrow> Captured \<Rightarrow> Captured \<Rightarrow> bool" for h c0 where
  capture_start: "capture_reach h c0 c0"
| capture_more: "capture_reach h c0 c \<Longrightarrow> capture_step h c c' \<Longrightarrow> capture_reach h c0 c'"

definition tape_of :: "nat \<Rightarrow> Captured \<Rightarrow> Tape" where
  "tape_of h c =
     \<lparr>tape_offered = map snd (filter (\<lambda>(k, d). k = h) (recorded (the_session c))),
      tape_kept = accepted (the_run c), tape_stored = processed (the_run c)\<rparr>"

section \<open>Lemmas\<close>

text \<open>A step of the session calls its recorder at most once, so the composition stops no step of it.\<close>

definition calls_once :: "Session \<Rightarrow> Session \<Rightarrow> bool" where
  "calls_once s t \<longleftrightarrow> recorded t = recorded s \<or> (\<exists>r d. recorded t = recorded s @ [(r, d)])"

lemma recorded_frame [simp]:
  "recorded (move_to g q s) = recorded s" "recorded (exit_go g s) = recorded s"
  "recorded (spawn q s) = recorded s" "recorded (close_stop s) = recorded s"
  "recorded (close_port s) = recorded s" "recorded (handleDisconnect s) = recorded s"
  "recorded (fst (Open dev s)) = recorded s" "recorded (fst (Subscribe s)) = recorded s"
  "recorded (SetRecorder r s) = recorded s"
  by (auto simp: move_to_def exit_go_def spawn_def close_stop_def close_port_def handleDisconnect_def Let_def
      Open_def Subscribe_def SetRecorder_def split: option.splits)

lemma calls_once_read: "read_step now c g q s = Some (Ret t) \<Longrightarrow> calls_once s t"
  by (cases q)
    (auto simp: calls_once_def then_do_eq_Ret Let_def dest!: broadcast_frame
      split: choice.splits if_splits option.splits)

lemma calls_once_recon: "recon_step c g q s = Some (Ret t) \<Longrightarrow> calls_once s t"
proof (cases q)
  case (ReconOpen st)
  assume r: "recon_step c g q s = Some (Ret t)"
  obtain e where c: "c = OpenDone e" using r ReconOpen by (auto split: choice.splits)
  have "recorded t = recorded (fst (Open (\<lambda>_ _. e) s))"
    using r by (auto simp: ReconOpen c split_beta split: if_splits)
  then show ?thesis by (simp add: calls_once_def)
qed (auto simp: calls_once_def then_do_eq_Ret dest!: broadcast_frame split: if_splits)

lemma calls_once_write: "write_step c g q s = Some t \<Longrightarrow> calls_once s t"
  by (cases q) (auto simp: calls_once_def split: choice.splits if_splits option.splits)

lemma calls_once_step:
  assumes "session_step l s t"
  shows "calls_once s t"
  using assms
proof (cases rule: session_step.cases)
  case (go now c g)
  then show ?thesis
    using calls_once_read [of now c g _ s t] calls_once_recon [of c g _ s t] calls_once_write [of c g _ s t]
    by (auto simp: gstep_def calls_once_def split: option.splits if_splits)
qed (auto simp: calls_once_def Unsubscribe_def submit_def then_do_eq_Ret split: option.splits outcome.splits)

lemma session_is_not_blocked:
  assumes "session_step l (the_session c) s"
  shows "\<exists>c'. capture_step h c c' \<and> the_session c' = s"
proof -
  consider "recorded s = recorded (the_session c)" | r d where "recorded s = recorded (the_session c) @ [(r, d)]"
    using calls_once_step [OF assms] by (auto simp: calls_once_def)
  then show ?thesis
  proof cases
    case 1
    then show ?thesis using session_only [OF assms, of h] by fastforce
  next
    case (2 r d)
    then show ?thesis using session_only [OF assms, of h] session_writes [OF assms, of h d] by (cases "r = h") fastforce+
  qed
qed

lemma capture_run_inv:
  "capture_step h c c' \<Longrightarrow> run_inv r0 (the_run c) \<Longrightarrow> run_inv r0 (the_run c')"
proof (induction rule: capture_step.induct)
  case (session_writes l c s d)
  have "recorder_step (the_run c) (write_chunk d (the_run c))"
    unfolding write_chunk_def by (rule api_write)
  then show ?case using run_inv_step session_writes.prems by simp
qed (auto intro: run_inv_step)

lemma capture_inv_reach: "capture_reach h c0 c \<Longrightarrow> run_inv r0 (the_run c0) \<Longrightarrow> run_inv r0 (the_run c)"
  by (induction rule: capture_reach.induct) (auto intro: capture_run_inv)

lemma processed_one:
  assumes "recorder_step r r'" and "accepted r' = accepted r"
  shows "processed r' = processed r \<or>
    (\<exists>d ds. buf (writeCh (recorder r)) = d # ds \<and> processed r' = processed r @ [d])"
  using assms(1)
  by (cases rule: recorder_step.cases) (auto simp: process_next_def dest: recv_frame)

section \<open>Properties\<close>


definition reading_session :: Session where
  "reading_session = com3_session\<lparr>sess_recorder := Some 0, goroutines := (goroutines com3_session)(0 := Some (ReadRecord 0 [] ''hello''))\<rparr>"

lemma reading_session_writes:
  "session_step Internal reading_session
     (move_to 0 (ReadLines 0 ''hello'') (reading_session\<lparr>recorded := recorded reading_session @ [(0, ''hello'')]\<rparr>))"
  by (rule go [of 0 Plain 0]) (simp add: gstep_def reading_session_def)


end
