(* ===== verification/TunnelBase.thy ===== *)
theory TunnelBase
  imports SshServer
begin

text \<open>
  What \<open>internal/tunnel\<close> shares between its tunnels: the retry loop with its growing pause (\<open>run\<close> in
  \<open>reverse.go\<close> and \<open>localforward.go\<close>), the credentials both build before they dial, the keepalive monitor
  (\<open>keepalive.go\<close>) and the copying of a forwarded connection. The contract of the retry loop is the
  locale \<open>retrying\<close>; \<open>ReverseTunnel\<close> and \<open>LocalForward\<close> interpret it on their own loops.
\<close>

section \<open>Addresses and credentials\<close>

text \<open>\<open>net.JoinHostPort\<close>: a host with a colon gets brackets.\<close>

definition JoinHostPort :: "string \<Rightarrow> string \<Rightarrow> string" where
  "JoinHostPort host p =
     (if CHR '':'' \<in> set host then CHR ''['' # host @ '']:'' @ p else host @ CHR '':'' # p)"

datatype auth_method = PublicKeys bytes | Password string

text \<open>What the environment answers: reading a key file, parsing a key, dialling an SSH server.\<close>

record dial_env =
  read_key :: "string \<Rightarrow> error + bytes"
  parse_key :: "bytes \<Rightarrow> error + bytes"
  ssh_dial :: "string \<Rightarrow> string \<Rightarrow> auth_method list \<Rightarrow> error option"

definition loadPrivateKey :: "dial_env \<Rightarrow> string \<Rightarrow> error + bytes" where
  "loadPrivateKey env path =
     (case read_key env path of
        Inl e \<Rightarrow> Inl (''read key file: '' @ e)
      | Inr data \<Rightarrow> parse_key env data)"

text \<open>The methods in the order they are offered; the error texts differ between the callers.\<close>

definition auth_methods ::
  "dial_env \<Rightarrow> string \<Rightarrow> string \<Rightarrow> string \<Rightarrow> string \<Rightarrow> error + auth_method list" where
  "auth_methods env key_err no_auth key_file password =
     (let keys = (if key_file = '''' then Inr []
                  else (case loadPrivateKey env key_file of
                      Inl e \<Rightarrow> Inl (key_err @ '': '' @ e)
                    | Inr signer \<Rightarrow> Inr [PublicKeys signer]))
      in case keys of
           Inl e \<Rightarrow> Inl e
         | Inr ks \<Rightarrow>
             (let auths = ks @ (if password = '''' then [] else [Password password]) in
              if auths = [] then Inl no_auth else Inr auths))"

definition no_tunnel_auth :: error where
  "no_tunnel_auth = ''no authentication method configured (set password or private_key_file)''"

text \<open>The head of \<open>connect\<close> and of \<open>serve\<close>: the credentials, then the connection to the SSH server.\<close>

definition dial_server :: "dial_env \<Rightarrow> ReverseTunnelConfig \<Rightarrow> error option" where
  "dial_server env cfg =
     (case auth_methods env ''load private key'' no_tunnel_auth (rt_PrivateKeyFile cfg) (rt_Password cfg) of
        Inl e \<Rightarrow> Some e
      | Inr auths \<Rightarrow>
          (let addr = JoinHostPort (rt_Host cfg) (itoa (rt_Port cfg)) in
           map_option (\<lambda>e. ''dial '' @ addr @ '': '' @ e) (ssh_dial env addr (rt_User cfg) auths)))"

section \<open>The retry loop\<close>

text \<open>
  How an attempt ended: without an error, or with one, and then whether the stop channel was closed when
  the loop looked at it.
\<close>

datatype attempt = Ended | Failed error bool

definition max_interval :: int where
  "max_interval = 30 * second"

definition next_interval :: "int \<Rightarrow> int" where
  "next_interval i = (let j = wrap64 (i * 2) in if j > max_interval then max_interval else j)"

definition retries :: "attempt \<Rightarrow> bool" where
  "retries a = (case a of Ended \<Rightarrow> False | Failed e stop \<Rightarrow> \<not> stop)"

text \<open>
  The contract of such a loop: it returns on an attempt that ends without an error or finds the loop
  stopped, and otherwise sleeps the current interval and goes on with the next. The result is
  the pauses it slept and whether it has returned.
\<close>

locale retrying =
  fixes loop :: "int \<Rightarrow> attempt list \<Rightarrow> int list \<times> bool"
  assumes loop_nil: "loop i [] = ([], False)"
    and loop_ended: "loop i (Ended # as) = ([], True)"
    and loop_stopped: "loop i (Failed e True # as) = ([], True)"
    and loop_failed: "loop i (Failed e False # as) =
      (i # fst (loop (next_interval i) as), snd (loop (next_interval i) as))"
begin

lemma loop_step: "loop i (a # as) =
    (if retries a then (i # fst (loop (next_interval i) as), snd (loop (next_interval i) as)) else ([], True))"
  by (cases a) (auto simp: retries_def loop_ended loop_stopped loop_failed)

lemma pauses_length: "length (fst (loop i as)) = length (takeWhile retries as)"
  by (induction as arbitrary: i) (auto simp: loop_nil loop_step)

lemma returned: "snd (loop i as) = list_ex (\<lambda>a. \<not> retries a) as"
  by (induction as arbitrary: i) (auto simp: loop_nil loop_step)

lemma pauses: "k < length (takeWhile retries as) \<Longrightarrow> fst (loop i as) ! k = (next_interval ^^ k) i"
proof (induction as arbitrary: i k)
  case (Cons a as)
  then have r: "retries a" by (simp split: if_splits)
  show ?case
  proof (cases k)
    case (Suc j)
    then have "fst (loop (next_interval i) as) ! j = (next_interval ^^ j) (next_interval i)"
      using Cons by (simp add: r)
    then show ?thesis by (simp add: r loop_step Suc funpow_swap1)
  qed (simp add: r loop_step)
qed simp

lemma loop_result:
  "loop i as = (map (\<lambda>k. (next_interval ^^ k) i) [0..<length (takeWhile retries as)], list_ex (\<lambda>a. \<not> retries a) as)"
  by (auto intro!: prod_eqI nth_equalityI simp: pauses_length pauses returned)

end

text \<open>The pauses double from one second up to thirty.\<close>

lemma next_interval_small: "0 \<le> i \<Longrightarrow> i \<le> max_interval \<Longrightarrow> next_interval i = min (i * 2) max_interval"
  by (simp add: next_interval_def max_interval_def second_def wrap64_id in_int64_def Let_def min_def)

lemma intervals: "(next_interval ^^ k) second = min (2 ^ k * second) max_interval"
proof (induction k)
  case 0
  then show ?case by (simp add: max_interval_def second_def)
next
  case (Suc k)
  have "0 \<le> min (2 ^ k * second) max_interval" by (simp add: second_def max_interval_def)
  then have "next_interval (min (2 ^ k * second) max_interval) = min (min (2 ^ k * second) max_interval * 2) max_interval"
    by (rule next_interval_small) simp
  also have "\<dots> = min (2 ^ Suc k * second) max_interval"
    by (simp add: min_def max_interval_def second_def)
  finally show ?case by (simp add: Suc)
qed

section \<open>Starting and stopping\<close>

text \<open>
  The interface \<open>Tunnel\<close> of \<open>localforward.go\<close>. \<open>Stop\<close> closes the stop channel under a \<open>sync.Once\<close> and then
  waits for the goroutines the wait group counts; \<open>stop\<close> is the part before the wait, and \<open>workers\<close> the
  count it waits for. \<open>sound\<close> is what a provider has to keep: the channel is closed exactly when the \<open>Once\<close>
  is used up.
\<close>

locale tunnel_interface =
  fixes start :: "'t \<Rightarrow> 't"
    and stop :: "'t \<Rightarrow> 't outcome"
    and stopping :: "'t \<Rightarrow> bool"
    and workers :: "'t \<Rightarrow> nat"
    and sound :: "'t \<Rightarrow> bool"
  assumes start_law: "sound t \<Longrightarrow> sound (start t) \<and> workers (start t) = Suc (workers t) \<and> stopping (start t) = stopping t"
    and stop_law: "sound t \<Longrightarrow> \<exists>t'. stop t = Ret t' \<and> sound t' \<and> stopping t' \<and> workers t' = workers t"
begin

fun life :: "bool list \<Rightarrow> 't \<Rightarrow> 't outcome" where
  "life [] t = Ret t"
| "life (True # cs) t = life cs (start t)"
| "life (False # cs) t = then_do (stop t) (life cs)"

text \<open>However often and in whatever order a tunnel is started and stopped, nothing panics.\<close>

lemma life_returns:
  "sound t \<Longrightarrow> \<exists>t'. life cs t = Ret t' \<and> sound t' \<and> workers t' = workers t + count_list cs True \<and>
     (stopping t' = (stopping t \<or> False \<in> set cs))"
proof (induction cs arbitrary: t)
  case Nil
  then show ?case by simp
next
  case (Cons c cs)
  show ?case
  proof (cases c)
    case True
    then show ?thesis using Cons.IH [of "start t"] start_law [OF Cons.prems] by auto
  next
    case False
    obtain t1 where "stop t = Ret t1 \<and> sound t1 \<and> stopping t1 \<and> workers t1 = workers t"
      using stop_law [OF Cons.prems] by blast
    then show ?thesis using Cons.IH [of t1] False by auto
  qed
qed

end

section \<open>The keepalive monitor\<close>

datatype probe = StopSeen | ProbeOk | ProbeFailed error

datatype monitor_end = MonitorRunning | MonitorStopped | DeclaredDead error

definition keepAliveMaxFails :: nat where
  "keepAliveMaxFails = 3"

text \<open>The loop over what its \<open>select\<close> takes; \<open>fails\<close> counts the failures in a row.\<close>

fun keepAliveMonitor :: "nat \<Rightarrow> probe list \<Rightarrow> monitor_end" where
  "keepAliveMonitor fails [] = MonitorRunning"
| "keepAliveMonitor fails (StopSeen # ps) = MonitorStopped"
| "keepAliveMonitor fails (ProbeFailed e # ps) =
     (if Suc fails \<ge> keepAliveMaxFails
      then DeclaredDead (''keepalive failed '' @ itoa (int (Suc fails)) @ '' times: '' @ e)
      else keepAliveMonitor (Suc fails) ps)"
| "keepAliveMonitor fails (ProbeOk # ps) = keepAliveMonitor 0 ps"

section \<open>A forwarded connection\<close>

text \<open>
  The two copying goroutines, as the sequence of their reads: data from the first or the second side, or
  the end of either. The connection is closed in both directions at the first end.
\<close>

datatype copy_event = FromA bytes | FromB bytes | EndA | EndB

text \<open>What the second side and the first side have been sent, and whether the connection is closed.\<close>

fun relay :: "copy_event list \<Rightarrow> bytes \<times> bytes \<times> bool" where
  "relay [] = ([], [], False)"
| "relay (FromA d # es) = (let (to_b, to_a, c) = relay es in (d @ to_b, to_a, c))"
| "relay (FromB d # es) = (let (to_b, to_a, c) = relay es in (to_b, d @ to_a, c))"
| "relay (EndA # es) = ([], [], True)"
| "relay (EndB # es) = ([], [], True)"

lemma relay_prefix:
  "relay es =
     (concat (map (\<lambda>e. case e of FromA d \<Rightarrow> d | _ \<Rightarrow> []) (takeWhile (\<lambda>e. e \<noteq> EndA \<and> e \<noteq> EndB) es)),
      concat (map (\<lambda>e. case e of FromB d \<Rightarrow> d | _ \<Rightarrow> []) (takeWhile (\<lambda>e. e \<noteq> EndA \<and> e \<noteq> EndB) es)),
      EndA \<in> set es \<or> EndB \<in> set es)"
  by (induction es rule: relay.induct) auto

section \<open>Properties\<close>

definition failing :: "probe \<Rightarrow> bool" where
  "failing p = (case p of ProbeFailed e \<Rightarrow> True | _ \<Rightarrow> False)"

definition dead :: "monitor_end \<Rightarrow> bool" where
  "dead m = (case m of DeclaredDead e \<Rightarrow> True | _ \<Rightarrow> False)"

lemma short_run:
  "n < 3 \<Longrightarrow> sublist [True, True, True] (replicate n True @ False # fs) = sublist [True, True, True] fs"
  by (cases n; cases "n - 1") (auto simp: sublist_Cons_right prefix_Cons numeral_eq_Suc)

lemma no_run: "n < 3 \<Longrightarrow> \<not> sublist [True, True, True] (replicate n True)"
  by (auto dest!: sublist_length_le)

lemma monitor_from:
  "n < 3 \<Longrightarrow>
     dead (keepAliveMonitor n ps) =
       sublist [True, True, True] (replicate n True @ map failing (takeWhile (\<lambda>p. p \<noteq> StopSeen) ps)) \<and>
     (keepAliveMonitor n ps = MonitorStopped) =
       (StopSeen \<in> set ps \<and> \<not> dead (keepAliveMonitor n ps))"
proof (induction n ps rule: keepAliveMonitor.induct)
  case (1 fails)
  then show ?case by (simp add: dead_def no_run)
next
  case (2 fails ps)
  then show ?case by (simp add: dead_def no_run)
next
  case (3 fails e ps)
  show ?case
  proof (cases "fails = 2")
    case True
    then show ?thesis
      by (simp add: keepAliveMaxFails_def dead_def failing_def numeral_eq_Suc sublist_Cons_right)
  next
    case False
    then have "Suc fails < 3" and "\<not> Suc fails \<ge> keepAliveMaxFails"
      using "3.prems" by (simp_all add: keepAliveMaxFails_def)
    moreover have "replicate fails True @ map failing (takeWhile (\<lambda>p. p \<noteq> StopSeen) (ProbeFailed e # ps)) =
        replicate (Suc fails) True @ map failing (takeWhile (\<lambda>p. p \<noteq> StopSeen) ps)"
      by (simp add: failing_def replicate_app_Cons_same)
    ultimately show ?thesis using "3.IH"
      by (simp only: keepAliveMonitor.simps if_False) (simp del: replicate.simps)
  qed
next
  case (4 fails ps)
  then show ?case by (simp add: failing_def short_run dead_def)
qed

text \<open>C28. The keepalive monitor calls the connection dead exactly when three probes in a row fail before the
  tunnel is stopped; a success in between starts the count again, and otherwise a stop ends the monitor.\<close>

theorem keepalive_needs_three_failures_in_a_row:
  "dead (keepAliveMonitor 0 ps) =
     sublist [True, True, True] (map failing (takeWhile (\<lambda>p. p \<noteq> StopSeen) ps)) \<and>
   (keepAliveMonitor 0 ps = MonitorStopped) = (StopSeen \<in> set ps \<and> \<not> dead (keepAliveMonitor 0 ps))"
  using monitor_from [of 0 ps] by simp

end
