(* ===== verification/ProxyBridge.thy ===== *)
theory ProxyBridge
  imports TunnelBase
begin

text \<open>
  \<open>internal/tunnel/proxybridge.go\<close>: the mode \<open>ssh_proxy\<close>, in which a forwarded connection is an SSH
  session with the gateway, bridged to a session on a target host. \<open>Serve\<close> is modelled by the settings it
  gives the SSH library, \<open>bridgeSession\<close> by the sequence of its effects, deferred calls included.
\<close>

section \<open>The bridge and its server\<close>

record ProxyBridge =
  pb_cfg :: ReverseTunnelConfig
  pb_sshCfg :: "SSHConfig option"
  pb_hostKeyPEM :: bytes

definition NewProxyBridge :: "ReverseTunnelConfig \<Rightarrow> SSHConfig option \<Rightarrow> bytes \<Rightarrow> ProxyBridge" where
  "NewProxyBridge cfg sshCfg hostKey = \<lparr>pb_cfg = cfg, pb_sshCfg = sshCfg, pb_hostKeyPEM = hostKey\<rparr>"

record ProxySettings =
  ps_HostKeyPEM :: bytes
  ps_PasswordHandler :: "string \<Rightarrow> bool"
  ps_ChannelHandlers :: "string list"

text \<open>
  What the connection is served with; \<open>None\<close> when it is closed at once. \<open>set_key\<close> is the library's
  answer to the host key.
\<close>

definition Serve :: "(bytes \<Rightarrow> error option) \<Rightarrow> ProxyBridge \<Rightarrow> ProxySettings option" where
  "Serve set_key b =
     (if set_key (pb_hostKeyPEM b) \<noteq> None then None
      else (case pb_sshCfg b of
          None \<Rightarrow> None
        | Some sc \<Rightarrow>
            if auth_Type (Auth sc) \<noteq> ''password'' then None
            else Some \<lparr>ps_HostKeyPEM = pb_hostKeyPEM b,
                       ps_PasswordHandler = (\<lambda>supplied. supplied = auth_Password (Auth sc)),
                       ps_ChannelHandlers = [''session'']\<rparr>))"

section \<open>The connection to the target\<close>

definition dialTarget :: "dial_env \<Rightarrow> ReverseTunnelConfig \<Rightarrow> error option" where
  "dialTarget env cfg =
     (case auth_methods env ''load target private key'' ''no target authentication method configured''
             (rt_TargetPrivateKey cfg) (rt_TargetPassword cfg) of
        Inl e \<Rightarrow> Some e
      | Inr auths \<Rightarrow>
          if rt_TargetUser cfg = '''' then Some ''target_user is required in ssh_proxy mode''
          else ssh_dial env (JoinHostPort (rt_TargetHost cfg) (itoa (rt_LocalPort cfg))) (rt_TargetUser cfg) auths)"

section \<open>A bridged session\<close>

record Window =
  win_Width :: int
  win_Height :: int

text \<open>What the client asked for.\<close>

record Inbound =
  Subsystem :: string
  Pty :: "(string \<times> Window) option"
  RawCommand :: string

text \<open>How the target's command or shell ended: the three kinds of error the code tells apart.\<close>

datatype run_end = Clean | ExitError int | ExitMissing | OtherError error

record target_env =
  target_session :: "error option"
  target_pty :: "error option"
  target_shell :: "error option"
  target_end :: run_end

datatype bridge_act =
    Print string
  | Exit int
  | TargetDialled
  | TargetSession
  | TargetPty string int int
  | SignalsOn
  | RunShell
  | RunCommand string
  | SignalsOff
  | SessionClosed
  | ClientClosed

definition give_up :: "string \<Rightarrow> error \<Rightarrow> bridge_act list" where
  "give_up what e = [Print (''['' @ what @ '': '' @ e @ '']'' @ [newline]), Exit 1]"

text \<open>The end of the session: the exit status is the target's where there is one.\<close>

definition report_end :: "run_end \<Rightarrow> bridge_act list" where
  "report_end r =
     (case r of
        Clean \<Rightarrow> [Exit 0]
      | ExitError n \<Rightarrow> [Exit n]
      | ExitMissing \<Rightarrow> [Exit 1]
      | OtherError e \<Rightarrow> give_up ''target session error'' e)"

definition bridge_command :: "target_env \<Rightarrow> Inbound \<Rightarrow> bridge_act list" where
  "bridge_command t inb =
     (if RawCommand inb = '''' then
        (case target_shell t of
           Some e \<Rightarrow> give_up ''target shell failed'' e
         | None \<Rightarrow> RunShell # report_end (target_end t))
      else RunCommand (RawCommand inb) # report_end (target_end t))"

definition bridge_pty :: "target_env \<Rightarrow> Inbound \<Rightarrow> bridge_act list" where
  "bridge_pty t inb =
     (case Pty inb of
        None \<Rightarrow> SignalsOn # bridge_command t inb @ [SignalsOff]
      | Some (term, w) \<Rightarrow>
          (case target_pty t of
             Some e \<Rightarrow> give_up ''target pty failed'' e
           | None \<Rightarrow> TargetPty term (win_Height w) (win_Width w) #
                       SignalsOn # bridge_command t inb @ [SignalsOff]))"

definition bridgeSession :: "dial_env \<Rightarrow> target_env \<Rightarrow> ProxyBridge \<Rightarrow> Inbound \<Rightarrow> bridge_act list" where
  "bridgeSession env t b inb =
     (if Subsystem inb \<noteq> '''' then give_up ''unsupported subsystem'' (Subsystem inb)
      else (case dialTarget env (pb_cfg b) of
          Some e \<Rightarrow> give_up ''target ssh dial failed'' e
        | None \<Rightarrow>
            TargetDialled #
            (case target_session t of
               Some e \<Rightarrow> give_up ''target session failed'' e
             | None \<Rightarrow> TargetSession # bridge_pty t inb @ [SessionClosed]) @ [ClientClosed]))"

text \<open>
  The two goroutines that pass window changes and signals on, over what their \<open>select\<close> takes: the end of
  the session's context, a value, or the end of the channel. An empty signal is skipped.
\<close>

datatype 'a taken = ContextOver | ChannelOver | Took 'a

fun forward_windows :: "Window taken list \<Rightarrow> (int \<times> int) list" where
  "forward_windows (Took w # es) = (win_Height w, win_Width w) # forward_windows es"
| "forward_windows _ = []"

fun forward_signals :: "string taken list \<Rightarrow> string list" where
  "forward_signals (Took sig # es) = (if sig = '''' then forward_signals es else sig # forward_signals es)"
| "forward_signals _ = []"

section \<open>Lemmas\<close>

definition exits :: "bridge_act list \<Rightarrow> int list" where
  "exits acts = concat (map (\<lambda>a. case a of Exit n \<Rightarrow> [n] | _ \<Rightarrow> []) acts)"

lemma exits_simps [simp]:
  "exits [] = []" "exits (xs @ ys) = exits xs @ exits ys" "exits (Exit n # xs) = n # exits xs"
  "exits (Print s # xs) = exits xs" "exits (TargetDialled # xs) = exits xs"
  "exits (TargetSession # xs) = exits xs" "exits (TargetPty u h w # xs) = exits xs"
  "exits (SignalsOn # xs) = exits xs" "exits (RunShell # xs) = exits xs"
  "exits (RunCommand c # xs) = exits xs" "exits (SignalsOff # xs) = exits xs"
  "exits (SessionClosed # xs) = exits xs" "exits (ClientClosed # xs) = exits xs"
  by (simp_all add: exits_def)

lemma exits_give_up [simp]: "exits (give_up w e) = [1]"
  by (simp add: give_up_def)

text \<open>Every open of the log is closed by the end of it, in the reverse order.\<close>

fun opens :: "bridge_act list \<Rightarrow> bridge_act list \<Rightarrow> bridge_act list option" where
  "opens st [] = Some st"
| "opens st (a # as) =
     (if a \<in> {TargetDialled, TargetSession, SignalsOn} then opens (a # st) as
      else if a \<in> {ClientClosed, SessionClosed, SignalsOff} then
        (case (a, st) of
           (ClientClosed, TargetDialled # st') \<Rightarrow> opens st' as
         | (SessionClosed, TargetSession # st') \<Rightarrow> opens st' as
         | (SignalsOff, SignalsOn # st') \<Rightarrow> opens st' as
         | _ \<Rightarrow> None)
      else opens st as)"

lemma opens_give_up [simp]: "opens st (give_up w e @ as) = opens st as"
  by (simp add: give_up_def)

lemma opens_report [simp]: "opens st (report_end r @ as) = opens st as"
  by (cases r) (simp_all add: report_end_def)

lemma opens_command [simp]: "opens st (bridge_command t inb @ as) = opens st as"
  by (simp add: bridge_command_def split: option.split)

lemma opens_pty [simp]: "opens st (bridge_pty t inb @ as) = opens st as"
  by (simp add: bridge_pty_def split: option.split prod.split)

lemma bridge_balanced: "opens [] (bridgeSession env t b inb) = Some []"
  using opens_give_up [of "[]" _ _ "[]"]
  by (simp add: bridgeSession_def split: option.split)

definition end_status :: "run_end \<Rightarrow> int" where
  "end_status r = (case r of Clean \<Rightarrow> 0 | ExitError n \<Rightarrow> n | _ \<Rightarrow> 1)"

lemma exits_report [simp]: "exits (report_end r) = [end_status r]"
  by (cases r) (simp_all add: report_end_def end_status_def)

definition bridged :: "dial_env \<Rightarrow> target_env \<Rightarrow> ProxyBridge \<Rightarrow> Inbound \<Rightarrow> bool" where
  "bridged env t b inb \<longleftrightarrow>
     Subsystem inb = '''' \<and> dialTarget env (pb_cfg b) = None \<and> target_session t = None \<and>
     (if Pty inb = None then True else target_pty t = None) \<and>
     (if RawCommand inb = '''' then target_shell t = None else True)"

lemma exits_command:
  "exits (bridge_command t inb) =
     [if RawCommand inb = '''' \<and> target_shell t \<noteq> None then 1 else end_status (target_end t)]"
  by (auto simp: bridge_command_def split: option.split)

lemma exits_pty:
  "exits (bridge_pty t inb) =
     (if Pty inb \<noteq> None \<and> target_pty t \<noteq> None then [1] else exits (bridge_command t inb))"
  by (auto simp: bridge_pty_def split: option.split)

section \<open>Properties\<close>

text \<open>C23. A bridged session tells its client exactly one exit status: the one the target's command ended with when
  the bridge to it was set up completely, and 1 when any step of the set-up failed. Whatever it opened on the way
  (the connection, the session, the signal registration) is closed again, innermost first.\<close>

theorem bridge_exits_once_and_closes:
  "exits (bridgeSession env t b inb) = [if bridged env t b inb then end_status (target_end t) else 1] \<and>
   opens [] (bridgeSession env t b inb) = Some []"
proof
  show "exits (bridgeSession env t b inb) = [if bridged env t b inb then end_status (target_end t) else 1]"
    by (cases "dialTarget env (pb_cfg b)"; cases "target_session t")
      (auto simp: bridgeSession_def bridged_def exits_pty exits_command)
qed (rule bridge_balanced)

end
