(* ===== verification/ReverseTunnel.thy ===== *)
theory ReverseTunnel
  imports ProxyBridge Channels "HOL-Library.Multiset"
begin

text \<open>
  \<open>internal/tunnel/reverse.go\<close>: one SSH connection to a remote server, a listener there per forward, and
  every connection accepted on one of them forwarded to a target on this side. \<open>connect\<close> is modelled in its
  two phases: \<open>connect_setup\<close>, a function from the answers of the server to a result and the log of actions,
  and \<open>hub_step\<close>, the step relation of the accepting goroutines and the loop that serves them. \<open>run\<close> and
  the life cycle are interpretations of the locales of \<open>TunnelBase\<close>.
\<close>

section \<open>The tunnel\<close>

record ForwardSpec =
  Label :: string
  RemotePort :: int
  TargetHost :: string
  TargetPort :: int

record ReverseTunnel =
  t_cfg :: ReverseTunnelConfig
  t_sshCfg :: "SSHConfig option"
  t_forwards :: "ForwardSpec list"
  t_stopCh :: "unit chan"
  t_once :: bool
  t_wg :: nat

definition NewMulti :: "ReverseTunnelConfig \<Rightarrow> SSHConfig option \<Rightarrow> ForwardSpec list \<Rightarrow> ReverseTunnel" where
  "NewMulti cfg sshCfg forwards =
     \<lparr>t_cfg = cfg, t_sshCfg = sshCfg, t_forwards = forwards, t_stopCh = make_chan 0, t_once = False, t_wg = 0\<rparr>"

definition New :: "ReverseTunnelConfig \<Rightarrow> SSHConfig option \<Rightarrow> ReverseTunnel" where
  "New cfg sshCfg =
     \<lparr>t_cfg = cfg, t_sshCfg = sshCfg,
      t_forwards = [\<lparr>Label = '''', RemotePort = rt_RemotePort cfg, TargetHost = rt_TargetHost cfg,
                     TargetPort = rt_LocalPort cfg\<rparr>],
      t_stopCh = make_chan 0, t_once = False, t_wg = 0\<rparr>"

text \<open>\<open>Start\<close> counts the goroutine it starts; \<open>Stop\<close> up to its wait for the counted goroutines.\<close>

definition StartTunnel :: "ReverseTunnel \<Rightarrow> ReverseTunnel" where
  "StartTunnel t = t\<lparr>t_wg := Suc (t_wg t)\<rparr>"

definition StopTunnel :: "ReverseTunnel \<Rightarrow> ReverseTunnel outcome" where
  "StopTunnel t =
     (if t_once t then Ret t
      else then_do (close_chan (t_stopCh t)) (\<lambda>c. Ret (t\<lparr>t_stopCh := c, t_once := True\<rparr>)))"

interpretation reverse_life: tunnel_interface StartTunnel StopTunnel "\<lambda>t. closed (t_stopCh t)" t_wg
    "\<lambda>t. t_once t = closed (t_stopCh t)"
  by unfold_locales (auto simp: StartTunnel_def StopTunnel_def close_chan_def)

section \<open>The retry loop\<close>

text \<open>\<open>run\<close>, over how its attempts to connect end; the pauses it slept and whether it has returned.\<close>

fun run_tunnel :: "int \<Rightarrow> attempt list \<Rightarrow> int list \<times> bool" where
  "run_tunnel interval [] = ([], False)"
| "run_tunnel interval (Ended # as) = ([], True)"
| "run_tunnel interval (Failed err stop # as) =
     (if stop then ([], True)
      else (let (slept, returned) = run_tunnel (next_interval interval) as in (interval # slept, returned)))"

interpretation reverse_run: retrying run_tunnel
  by unfold_locales (auto simp: split_beta)

section \<open>Talking to the server\<close>

text \<open>
  What happens on the connection, in order. The answers of the server may depend on everything before:
  each is a function of the log so far.
\<close>

datatype net_act =
    SessionOpened
  | SessionRefused
  | Output string
  | RunRemote string
  | SessionEnded
  | Sleep int
  | Listening string
  | ListenFailed string
  | ListenerClosed string
  | ClientConnected
  | ClientDown

record server_env =
  new_session :: "net_act list \<Rightarrow> error option"
  combined_output :: "net_act list \<Rightarrow> string \<Rightarrow> error + string"
  listen_err :: "net_act list \<Rightarrow> string \<Rightarrow> error option"

definition remotePorts :: "ReverseTunnel \<Rightarrow> int list" where
  "remotePorts t = map RemotePort (t_forwards t)"

text \<open>The raw string of the source has two backslashes before the K.\<close>

definition find_cmd :: "string \<Rightarrow> string" where
  "find_cmd prt = ''ss -tlnp 2>/dev/null | grep '' @ [CHR 0x27] @ '':'' @ prt @ '' '' @ [CHR 0x27] @
     '' | grep -oP '' @ [CHR 0x27] @ ''pid='' @ [backslash, backslash] @ ''K[0-9]+'' @ [CHR 0x27] @ '' | sort -u''"

definition kill_cmd :: "string \<Rightarrow> string" where
  "kill_cmd pid = ''kill '' @ pid @ '' 2>/dev/null || true''"

definition kill9_cmd :: "string \<Rightarrow> string" where
  "kill9_cmd pid = ''kill -0 '' @ pid @ '' 2>/dev/null && kill -9 '' @ pid @ '' 2>/dev/null || true''"

text \<open>Two attempts on one process; a session that cannot be opened skips to the next process.\<close>

definition kill_pid :: "server_env \<Rightarrow> string \<Rightarrow> net_act list \<Rightarrow> net_act list" where
  "kill_pid env pid l =
     (if new_session env l \<noteq> None then l @ [SessionRefused]
      else (let l1 = l @ [SessionOpened, RunRemote (kill_cmd pid), SessionEnded, Sleep (200 * millisecond)] in
        if new_session env l1 \<noteq> None then l1 @ [SessionRefused]
        else l1 @ [SessionOpened, RunRemote (kill9_cmd pid), SessionEnded]))"

definition kill_port :: "server_env \<Rightarrow> int \<Rightarrow> net_act list \<Rightarrow> error option \<times> net_act list" where
  "kill_port env p l =
     (case new_session env l of
        Some e \<Rightarrow> (Some e, l @ [SessionRefused])
      | None \<Rightarrow>
          (let l1 = l @ [SessionOpened, Output (find_cmd (itoa p)), SessionEnded] in
           case combined_output env (l @ [SessionOpened]) (find_cmd (itoa p)) of
             Inl e \<Rightarrow> (Some e, l1)
           | Inr out \<Rightarrow> (None, fold (kill_pid env) (string_fields out) l1)))"

text \<open>A failure on one port does not keep the others from being cleared; the first one is reported.\<close>

fun killRemotePortHolders :: "server_env \<Rightarrow> int list \<Rightarrow> net_act list \<Rightarrow> error option \<times> net_act list" where
  "killRemotePortHolders env [] l = (None, l)"
| "killRemotePortHolders env (p # ps) l =
     (let (e, l1) = kill_port env p l; (es, l2) = killRemotePortHolders env ps l1 in
      (if e = None then es else e, l2))"

section \<open>Setting the connection up\<close>

definition remote_addr :: "ReverseTunnelConfig \<Rightarrow> ForwardSpec \<Rightarrow> string" where
  "remote_addr cfg f = rt_BindAddress cfg @ '':'' @ itoa (RemotePort f)"

text \<open>One listener, tried a second time after its port was cleared once more.\<close>

definition listen_one ::
  "server_env \<Rightarrow> ReverseTunnelConfig \<Rightarrow> ForwardSpec \<Rightarrow> net_act list \<Rightarrow> error option \<times> net_act list" where
  "listen_one env cfg f l =
     (let addr = remote_addr cfg f in
      case listen_err env l addr of
        None \<Rightarrow> (None, l @ [Listening addr])
      | Some e \<Rightarrow>
          (let l1 = snd (killRemotePortHolders env [RemotePort f]
                           (l @ [ListenFailed addr, Sleep (500 * millisecond)])) @ [Sleep (500 * millisecond)] in
           case listen_err env l1 addr of
             None \<Rightarrow> (None, l1 @ [Listening addr])
           | Some e' \<Rightarrow> (Some (''remote listen on '' @ addr @ '': '' @ e'), l1 @ [ListenFailed addr])))"

text \<open>The listeners in the order of the forwards; the second component is the ones that are open.\<close>

fun open_listeners ::
  "server_env \<Rightarrow> ReverseTunnelConfig \<Rightarrow> ForwardSpec list \<Rightarrow> net_act list
    \<Rightarrow> error option \<times> ForwardSpec list \<times> net_act list" where
  "open_listeners env cfg [] l = (None, [], l)"
| "open_listeners env cfg (f # fs) l =
     (case listen_one env cfg f l of
        (Some e, l1) \<Rightarrow> (Some e, [], l1)
      | (None, l1) \<Rightarrow> (let (e, opened, l2) = open_listeners env cfg fs l1 in (e, f # opened, l2)))"

text \<open>The proxy of the mode \<open>ssh_proxy\<close>, which needs the host key; the last component is the key file.\<close>

definition make_proxy ::
  "key_env \<Rightarrow> ReverseTunnel \<Rightarrow> bytes option \<Rightarrow> (error + ProxyBridge option) \<times> bytes option" where
  "make_proxy kenv t disk =
     (if length (t_forwards t) = 1 \<and> rt_Mode (t_cfg t) = ''ssh_proxy'' then
        (if (case t_sshCfg t of None \<Rightarrow> True | Some sc \<Rightarrow> auth_Type (Auth sc) \<noteq> ''password'')
         then (Inl ''ssh_proxy mode currently requires gateway ssh.auth.type=password'', disk)
         else (case LoadOrGenerateHostKeyPEM kenv disk of
             (Inl e, disk') \<Rightarrow> (Inl (''load gateway host key: '' @ e), disk')
           | (Inr pem, disk') \<Rightarrow> (Inr (Some (NewProxyBridge (t_cfg t) (t_sshCfg t) pem)), disk')))
      else (Inr None, disk))"

text \<open>What the deferred calls of \<open>connect\<close> do: every open listener is closed, then the connection.\<close>

definition tear_down :: "ReverseTunnelConfig \<Rightarrow> ForwardSpec list \<Rightarrow> net_act list \<Rightarrow> net_act list" where
  "tear_down cfg opened l = l @ map (\<lambda>f. ListenerClosed (remote_addr cfg f)) opened @ [ClientDown]"

text \<open>
  \<open>connect\<close> up to its accept loops. An error comes with the log after the deferred calls; otherwise the proxy
  and the specs whose listeners are open, with the log so far.
\<close>

definition connect_setup ::
  "dial_env \<Rightarrow> key_env \<Rightarrow> server_env \<Rightarrow> ReverseTunnel \<Rightarrow> bytes option
    \<Rightarrow> (error + ProxyBridge option \<times> ForwardSpec list) \<times> net_act list \<times> bytes option" where
  "connect_setup denv kenv env t disk =
     (case dial_server denv (t_cfg t) of
        Some e \<Rightarrow> (Inl e, [], disk)
      | None \<Rightarrow>
          (let l = snd (killRemotePortHolders env (remotePorts t) [ClientConnected]) in
           case make_proxy kenv t disk of
             (Inl e, disk') \<Rightarrow> (Inl e, tear_down (t_cfg t) [] l, disk')
           | (Inr proxy, disk') \<Rightarrow>
               (case open_listeners env (t_cfg t) (t_forwards t) l of
                  (Some e, opened, l') \<Rightarrow> (Inl e, tear_down (t_cfg t) opened l', disk')
                | (None, opened, l') \<Rightarrow> (Inr (proxy, opened), l', disk'))))"

text \<open>One forwarded connection: the dial to the target, then the copying (\<open>relay\<close>); it is closed in the end.\<close>

definition forward :: "(string \<Rightarrow> error option) \<Rightarrow> ForwardSpec \<Rightarrow> copy_event list \<Rightarrow> bytes \<times> bytes \<times> bool" where
  "forward dial spec es =
     (case dial (JoinHostPort (TargetHost spec) (itoa (TargetPort spec))) of
        Some e \<Rightarrow> ([], [], True)
      | None \<Rightarrow> relay es)"


section \<open>Accepting connections\<close>

text \<open>
  A goroutine of a listener: waiting in \<open>Accept\<close>, offering a connection to \<open>acceptCh\<close>, about to report
  on \<open>errCh\<close> that its listener died, or returned. Connections are numbered in the order they are accepted.
\<close>

datatype acceptor = Accepting | Offering nat | Reporting error | Returned

record Hub =
  h_specs :: "ForwardSpec list"
  h_acceptors :: "acceptor list"
  h_acceptCh :: "(nat \<times> ForwardSpec) chan"
  h_errCh :: "error chan"
  h_stop :: bool
  h_result :: "error option option"
  h_listening :: bool
  h_accepted :: "(nat \<times> ForwardSpec) list"
  h_served :: "(nat \<times> ForwardSpec) list"
  h_refused :: "(nat \<times> ForwardSpec) list"

definition new_hub :: "ForwardSpec list \<Rightarrow> Hub" where
  "new_hub specs = \<lparr>h_specs = specs, h_acceptors = replicate (length specs) Accepting,
     h_acceptCh = make_chan 8, h_errCh = make_chan (length specs), h_stop = False, h_result = None, h_listening = True,
     h_accepted = [], h_served = [], h_refused = []\<rparr>"

definition listener_closed :: "ForwardSpec \<Rightarrow> error \<Rightarrow> error" where
  "listener_closed f e = ''listener '' @ Label f @ '' (:'' @ itoa (RemotePort f) @ '') closed: '' @ e"

definition goes_to :: "nat \<Rightarrow> acceptor \<Rightarrow> Hub \<Rightarrow> Hub" where
  "goes_to i a h = h\<lparr>h_acceptors := (h_acceptors h)[i := a]\<rparr>"

definition is_at :: "nat \<Rightarrow> acceptor \<Rightarrow> Hub \<Rightarrow> bool" where
  "is_at i a h \<longleftrightarrow> i < length (h_acceptors h) \<and> h_acceptors h ! i = a"

text \<open>
  The steps. The loop of \<open>connect\<close> returns when it sees the stop or an error (\<open>h_result\<close>); its deferred
  calls then close the listeners (\<open>listeners_close\<close>), and nothing is accepted any more.
\<close>

inductive hub_step :: "Hub \<Rightarrow> Hub \<Rightarrow> bool" where
  accept: "is_at i Accepting h \<Longrightarrow> h_listening h \<Longrightarrow> n = length (h_accepted h) \<Longrightarrow>
     hub_step h (goes_to i (Offering n) (h\<lparr>h_accepted := h_accepted h @ [(n, h_specs h ! i)]\<rparr>))"
| accept_fails: "is_at i Accepting h \<Longrightarrow>
     hub_step h (goes_to i (if h_stop h then Returned else Reporting (listener_closed (h_specs h ! i) e)) h)"
| report: "is_at i (Reporting m) h \<Longrightarrow> send m (h_errCh h) = Some (Ret ch) \<Longrightarrow>
     hub_step h (goes_to i Returned (h\<lparr>h_errCh := ch\<rparr>))"
| hand_over: "is_at i (Offering n) h \<Longrightarrow> send (n, h_specs h ! i) (h_acceptCh h) = Some (Ret ch) \<Longrightarrow>
     hub_step h (goes_to i Accepting (h\<lparr>h_acceptCh := ch\<rparr>))"
| refuse: "is_at i (Offering n) h \<Longrightarrow> h_stop h \<Longrightarrow>
     hub_step h (goes_to i Returned (h\<lparr>h_refused := h_refused h @ [(n, h_specs h ! i)]\<rparr>))"
| serve: "h_result h = None \<Longrightarrow> recv (h_acceptCh h) = Some (x, ch) \<Longrightarrow>
     hub_step h (h\<lparr>h_acceptCh := ch, h_served := h_served h @ [x]\<rparr>)"
| stopping: "h_result h = None \<Longrightarrow> h_stop h \<Longrightarrow> hub_step h (h\<lparr>h_result := Some None\<rparr>)"
| listener_failed: "h_result h = None \<Longrightarrow> recv (h_errCh h) = Some (e, ch) \<Longrightarrow>
     hub_step h (h\<lparr>h_errCh := ch, h_result := Some (Some (''remote listener failed: '' @ e))\<rparr>)"
| listeners_close: "h_result h \<noteq> None \<Longrightarrow> hub_step h (h\<lparr>h_listening := False\<rparr>)"
| stop: "hub_step h (h\<lparr>h_stop := True\<rparr>)"

inductive hub_reach :: "Hub \<Rightarrow> Hub \<Rightarrow> bool" for h0 where
  hub_start: "hub_reach h0 h0"
| hub_more: "hub_reach h0 h \<Longrightarrow> hub_step h h' \<Longrightarrow> hub_reach h0 h'"

section \<open>Lemmas on the set-up\<close>

text \<open>What only talks to the server over sessions, and ends each one it opens.\<close>

definition quiet :: "net_act \<Rightarrow> bool" where
  "quiet a = (case a of Listening x \<Rightarrow> False | ListenerClosed x \<Rightarrow> False | ClientConnected \<Rightarrow> False
                      | ClientDown \<Rightarrow> False | _ \<Rightarrow> True)"

definition only_sessions :: "net_act list \<Rightarrow> bool" where
  "only_sessions as \<longleftrightarrow> list_all quiet as \<and> count_list as SessionOpened = count_list as SessionEnded"

lemma only_sessions_append [intro]: "only_sessions as \<Longrightarrow> only_sessions bs \<Longrightarrow> only_sessions (as @ bs)"
  by (simp add: only_sessions_def)

definition extends :: "net_act list \<Rightarrow> net_act list \<Rightarrow> bool" where
  "extends l l' \<longleftrightarrow> (\<exists>as. l' = l @ as \<and> only_sessions as)"

lemma extendsI: "only_sessions as \<Longrightarrow> extends l (l @ as)"
  by (auto simp: extends_def)

lemma extends_refl [simp]: "extends l l"
  by (simp add: extends_def only_sessions_def)

lemma extends_trans [trans]: "extends l l' \<Longrightarrow> extends l' l'' \<Longrightarrow> extends l l''"
  unfolding extends_def by fastforce

lemma only_sessions_simps:
  "only_sessions [SessionRefused]" "only_sessions [SessionOpened, RunRemote c, SessionEnded, Sleep i]"
  "only_sessions [SessionOpened, RunRemote c, SessionEnded]" "only_sessions [SessionOpened, Output c, SessionEnded]"
  "only_sessions [ListenFailed ad, Sleep i]" "only_sessions [Sleep i]" "only_sessions [ListenFailed ad]"
  by (simp_all add: only_sessions_def quiet_def)

lemmas log_extends = only_sessions_simps [THEN extendsI]

lemma kill_pid_extends: "extends l (kill_pid env pid l)"
  unfolding kill_pid_def Let_def
  using extends_trans [OF log_extends(2) log_extends(1)] extends_trans [OF log_extends(2) log_extends(3)]
  by (simp add: log_extends(1) del: append_assoc)

lemma kill_pids_extends: "extends l (fold (kill_pid env) ws l)"
  by (induction ws arbitrary: l) (auto intro: extends_trans [OF kill_pid_extends])

lemma kill_port_extends: "extends l (snd (kill_port env p l))"
  unfolding kill_port_def Let_def
  using extends_trans [OF log_extends(4) kill_pids_extends]
  by (simp add: log_extends split: option.split sum.split)

lemma kill_ports_extends: "extends l (snd (killRemotePortHolders env ps l))"
proof (induction ps arbitrary: l)
  case (Cons p ps)
  have "extends l (snd (kill_port env p l))" by (rule kill_port_extends)
  also have "extends (snd (kill_port env p l)) (snd (killRemotePortHolders env ps (snd (kill_port env p l))))"
    by (rule Cons)
  finally show ?case by (simp add: split_beta)
qed simp

text \<open>What a log says of the listeners, the connection and the sessions.\<close>

definition listened :: "net_act list \<Rightarrow> string list" where
  "listened l = concat (map (\<lambda>a. case a of Listening x \<Rightarrow> [x] | _ \<Rightarrow> []) l)"

definition unlistened :: "net_act list \<Rightarrow> string list" where
  "unlistened l = concat (map (\<lambda>a. case a of ListenerClosed x \<Rightarrow> [x] | _ \<Rightarrow> []) l)"

definition open_sessions :: "net_act list \<Rightarrow> int" where
  "open_sessions l = int (count_list l SessionOpened) - int (count_list l SessionEnded)"

definition open_clients :: "net_act list \<Rightarrow> int" where
  "open_clients l = int (count_list l ClientConnected) - int (count_list l ClientDown)"

lemma log_append [simp]:
  "listened (l @ m) = listened l @ listened m" "unlistened (l @ m) = unlistened l @ unlistened m"
  "open_sessions (l @ m) = open_sessions l + open_sessions m"
  "open_clients (l @ m) = open_clients l + open_clients m"
  by (simp_all add: listened_def unlistened_def open_sessions_def open_clients_def)

lemma quiet_log: "list_all quiet l \<Longrightarrow> listened l = [] \<and> unlistened l = [] \<and> open_clients l = 0"
  by (induction l)
    (auto simp: listened_def unlistened_def open_clients_def quiet_def split: net_act.splits)

lemma extends_log:
  assumes "extends l l'"
  shows "listened l' = listened l" and "unlistened l' = unlistened l"
    and "open_sessions l' = open_sessions l" and "open_clients l' = open_clients l"
proof -
  obtain as where "l' = l @ as" "list_all quiet as" "count_list as SessionOpened = count_list as SessionEnded"
    using assms by (auto simp: extends_def only_sessions_def)
  then show "listened l' = listened l" "unlistened l' = unlistened l"
    "open_sessions l' = open_sessions l" "open_clients l' = open_clients l"
    using quiet_log [of as] by (simp_all add: open_sessions_def)
qed

lemma listening_log [simp]:
  "listened [Listening ad] = [ad]" "unlistened [Listening ad] = []" "open_sessions [Listening ad] = 0"
  "open_clients [Listening ad] = 0"
  by (simp_all add: listened_def unlistened_def open_sessions_def open_clients_def)

lemma ends_log [simp]:
  "listened [ClientConnected] = []" "unlistened [ClientConnected] = []" "open_sessions [ClientConnected] = 0"
  "open_clients [ClientConnected] = 1" "listened [ClientDown] = []" "unlistened [ClientDown] = []"
  "open_sessions [ClientDown] = 0" "open_clients [ClientDown] = - 1"
  by (simp_all add: listened_def unlistened_def open_sessions_def open_clients_def)

lemma closing_log [simp]:
  "listened (map (\<lambda>f. ListenerClosed (g f)) fs) = []" "unlistened (map (\<lambda>f. ListenerClosed (g f)) fs) = map g fs"
  "open_sessions (map (\<lambda>f. ListenerClosed (g f)) fs) = 0" "open_clients (map (\<lambda>f. ListenerClosed (g f)) fs) = 0"
  by (induction fs) (simp_all add: listened_def unlistened_def open_sessions_def open_clients_def)

lemma tear_down_log:
  "listened (tear_down cfg opened l) = listened l"
  "unlistened (tear_down cfg opened l) = unlistened l @ map (remote_addr cfg) opened"
  "open_sessions (tear_down cfg opened l) = open_sessions l"
  "open_clients (tear_down cfg opened l) = open_clients l - 1"
  by (simp_all add: tear_down_def)

lemma listen_one_log:
  "listen_one env cfg f l = (e, l') \<Longrightarrow>
     (case e of None \<Rightarrow> \<exists>m. extends l m \<and> l' = m @ [Listening (remote_addr cfg f)] | Some _ \<Rightarrow> extends l l')"
proof -
  let ?l1 = "snd (killRemotePortHolders env [RemotePort f]
      (l @ [ListenFailed (remote_addr cfg f), Sleep (500 * millisecond)])) @ [Sleep (500 * millisecond)]"
  have k: "extends l ?l1"
    by (rule extends_trans [OF log_extends(5)], rule extends_trans [OF kill_ports_extends], rule log_extends(6))
  assume "listen_one env cfg f l = (e, l')"
  then show ?thesis
    using extends_refl [of l] k extends_trans [OF k log_extends(7)]
    unfolding listen_one_def Let_def by (auto split: option.splits)
qed

lemma open_listeners_log:
  "open_listeners env cfg fs l = (e, opened, l') \<Longrightarrow>
     listened l' = listened l @ map (remote_addr cfg) opened \<and> unlistened l' = unlistened l \<and>
     open_sessions l' = open_sessions l \<and> open_clients l' = open_clients l \<and>
     prefix opened fs \<and> (e = None \<longrightarrow> opened = fs)"
proof (induction fs arbitrary: l e opened l')
  case (Cons f fs)
  obtain e1 l1 where one: "listen_one env cfg f l = (e1, l1)" by fastforce
  show ?case
  proof (cases e1)
    case None
    then obtain m where m: "extends l m" "l1 = m @ [Listening (remote_addr cfg f)]"
      using listen_one_log [OF one] by auto
    obtain es os ls where r: "open_listeners env cfg fs l1 = (es, os, ls)" by (metis prod_cases3)
    have "e = es" "opened = f # os" "l' = ls" using Cons.prems by (simp_all add: one None r)
    then show ?thesis using Cons.IH [OF r] extends_log [OF m(1)] by (simp add: m(2))
  next
    case (Some x)
    then show ?thesis using Cons.prems listen_one_log [OF one] by (auto simp: one extends_log)
  qed
qed auto

text \<open>The part of a log before the first attempt to listen, and the ports whose holders were looked for in it.\<close>

definition listens :: "net_act \<Rightarrow> bool" where
  "listens a = (case a of Listening x \<Rightarrow> True | ListenFailed x \<Rightarrow> True | _ \<Rightarrow> False)"

definition before_listening :: "net_act list \<Rightarrow> net_act list" where
  "before_listening l = takeWhile (\<lambda>a. \<not> listens a) l"

text \<open>The search for a port's holders was run, unless a session was refused.\<close>

definition searched :: "net_act list \<Rightarrow> int \<Rightarrow> bool" where
  "searched l p = (if SessionRefused \<in> set l then True else Output (find_cmd (itoa p)) \<in> set l)"

definition clears :: "int list \<Rightarrow> net_act list \<Rightarrow> net_act list \<Rightarrow> bool" where
  "clears ps l l' \<longleftrightarrow> (\<exists>as. l' = l @ as \<and> list_all (\<lambda>a. \<not> listens a) as \<and> list_all (searched as) ps)"

lemma clears_refl [simp]: "clears [] l l"
  by (simp add: clears_def)

lemma clears_trans: "clears ps l l' \<Longrightarrow> clears qs l' l'' \<Longrightarrow> clears (ps @ qs) l l''"
  unfolding clears_def by (auto simp: searched_def list_all_iff)

lemma clearsI: "list_all (\<lambda>a. \<not> listens a) as \<Longrightarrow> list_all (searched as) ps \<Longrightarrow> clears ps l (l @ as)"
  by (auto simp: clears_def)

lemma kill_pid_clears: "clears [] l (kill_pid env pid l)"
  unfolding kill_pid_def Let_def by (auto intro!: clearsI simp: listens_def)

lemma kill_pids_clears: "clears [] l (fold (kill_pid env) ws l)"
proof (induction ws arbitrary: l)
  case (Cons w ws)
  from clears_trans [OF kill_pid_clears Cons] show ?case by simp
qed simp

lemma kill_port_clears: "clears [p] l (snd (kill_port env p l))"
proof (cases "new_session env l")
  case None
  let ?l1 = "l @ [SessionOpened, Output (find_cmd (itoa p)), SessionEnded]"
  have "clears [p] l ?l1" by (rule clearsI) (simp_all add: listens_def searched_def)
  with clears_trans [OF this kill_pids_clears] show ?thesis
    by (simp add: kill_port_def None Let_def split: sum.split)
next
  case (Some e)
  then show ?thesis by (auto simp: kill_port_def listens_def searched_def intro!: clearsI)
qed

lemma kill_ports_clears: "clears ps l (snd (killRemotePortHolders env ps l))"
proof (induction ps arbitrary: l)
  case (Cons p ps)
  from clears_trans [OF kill_port_clears Cons] show ?case by (simp add: split_beta)
qed simp

lemma open_listeners_prefix: "open_listeners env cfg fs l = (e, opened, l') \<Longrightarrow> prefix l l'"
proof (induction fs arbitrary: l e opened l')
  case (Cons f fs)
  obtain e1 l1 where one: "listen_one env cfg f l = (e1, l1)" by fastforce
  have p: "prefix l l1"
    using listen_one_log [OF one] by (cases e1) (auto simp: extends_def prefix_def)
  show ?case
  proof (cases e1)
    case None
    obtain es os ls where r: "open_listeners env cfg fs l1 = (es, os, ls)" by (metis prod_cases3)
    then show ?thesis using Cons.IH [OF r] Cons.prems p by (auto simp: one None intro: prefix_order.trans)
  qed (use Cons.prems p one in simp)
qed simp

lemma before_listening_searched:
  assumes "clears ps [ClientConnected] l" and "prefix l l'"
  shows "list_all (searched (before_listening l')) ps"
proof -
  obtain as m where as: "l' = ClientConnected # as @ m" "list_all (\<lambda>a. \<not> listens a) as" "list_all (searched as) ps"
    using assms by (auto simp: clears_def prefix_def)
  then have "before_listening l' = ClientConnected # as @ takeWhile (\<lambda>a. \<not> listens a) m"
    by (simp add: before_listening_def listens_def [of ClientConnected] list_all_iff takeWhile_append2)
  then show ?thesis using as(3) by (auto simp: searched_def list_all_iff)
qed

section \<open>Lemmas on the accept loops\<close>

text \<open>What an acceptor holds, and whether it has reported: the two quantities the invariant counts.\<close>

definition held :: "ForwardSpec list \<Rightarrow> nat \<Rightarrow> acceptor \<Rightarrow> (nat \<times> ForwardSpec) list" where
  "held specs i a = (case a of Offering n \<Rightarrow> [(n, specs ! i)] | _ \<Rightarrow> [])"

lemma held_simps [simp]:
  "held specs i Accepting = []" "held specs i (Offering n) = [(n, specs ! i)]" "held specs i (Reporting e) = []"
  "held specs i Returned = []"
  by (simp_all add: held_def)

definition offered :: "Hub \<Rightarrow> nat \<Rightarrow> (nat \<times> ForwardSpec) list" where
  "offered h i = held (h_specs h) i (h_acceptors h ! i)"

definition in_hand :: "Hub \<Rightarrow> (nat \<times> ForwardSpec) multiset" where
  "in_hand h = (\<Sum>i\<leftarrow>[0..<length (h_acceptors h)]. mset (offered h i))"

definition returned_acceptors :: "Hub \<Rightarrow> nat" where
  "returned_acceptors h = count_list (h_acceptors h) Returned"

definition hub_ok :: "Hub \<Rightarrow> bool" where
  "hub_ok h \<longleftrightarrow> length (h_acceptors h) = length (h_specs h) \<and>
     mset (h_accepted h) = in_hand h + mset (buf (h_acceptCh h)) + mset (h_served h) + mset (h_refused h) \<and>
     map fst (h_accepted h) = [0..<length (h_accepted h)] \<and>
     \<not> closed (h_acceptCh h) \<and> \<not> closed (h_errCh h) \<and> cap (h_acceptCh h) = 8 \<and>
     cap (h_errCh h) = length (h_specs h) \<and> length (buf (h_acceptCh h)) \<le> 8 \<and>
     length (buf (h_errCh h)) \<le> returned_acceptors h \<and> (h_result h = None \<longrightarrow> h_listening h)"

lemma sum_update:
  assumes "i < n" and "\<And>j. j \<noteq> i \<Longrightarrow> g j = f j"
  shows "(\<Sum>j\<leftarrow>[0..<n]. g j) + f i = (\<Sum>j\<leftarrow>[0..<n]. f j) + (g i :: 'a multiset)"
proof -
  have "[0..<n] = [0..<i] @ i # [Suc i..<n]"
    using assms(1) upt_add_eq_append [of 0 i "n - i"] by (simp add: upt_conv_Cons)
  moreover have "map g [0..<i] = map f [0..<i]" "map g [Suc i..<n] = map f [Suc i..<n]"
    using assms(2) by auto
  ultimately show ?thesis by (simp del: map_eq_conv)
qed

lemma count_list_update:
  "i < length xs \<Longrightarrow> count_list (xs[i := a]) x + (if xs ! i = x then 1 else 0) = count_list xs x + (if a = x then 1 else 0)"
proof (induction xs arbitrary: i)
  case (Cons y ys)
  show ?case
  proof (cases i)
    case (Suc j)
    then show ?thesis using Cons.IH [of j] Cons.prems by auto
  qed simp
qed simp

lemma goes_to_simps [simp]:
  "h_specs (goes_to i a h) = h_specs h" "h_acceptCh (goes_to i a h) = h_acceptCh h"
  "h_errCh (goes_to i a h) = h_errCh h" "h_stop (goes_to i a h) = h_stop h"
  "h_result (goes_to i a h) = h_result h" "h_listening (goes_to i a h) = h_listening h" "h_accepted (goes_to i a h) = h_accepted h"
  "h_served (goes_to i a h) = h_served h" "h_refused (goes_to i a h) = h_refused h"
  "h_acceptors (goes_to i a h) = (h_acceptors h)[i := a]"
  by (simp_all add: goes_to_def)

lemma in_hand_cong: "h_acceptors h' = h_acceptors h \<Longrightarrow> h_specs h' = h_specs h \<Longrightarrow> in_hand h' = in_hand h"
  by (simp add: in_hand_def offered_def)

lemma goes_to_in_hand:
  assumes "is_at i b h"
  shows "in_hand (goes_to i a h) + mset (held (h_specs h) i b) = in_hand h + mset (held (h_specs h) i a)"
proof -
  have "mset (offered (goes_to i a h) j) = mset (offered h j)" if "j \<noteq> i" for j
    using that by (simp add: offered_def)
  then show ?thesis
    using sum_update [of i "length (h_acceptors h)" "\<lambda>j. mset (offered (goes_to i a h) j)" "\<lambda>j. mset (offered h j)"] assms
    by (simp add: in_hand_def is_at_def offered_def)
qed

lemma goes_to_returned:
  "is_at i b h \<Longrightarrow> returned_acceptors (goes_to i a h) + (if b = Returned then 1 else 0) =
     returned_acceptors h + (if a = Returned then 1 else 0)"
  using count_list_update [of i "h_acceptors h" a Returned] by (simp add: returned_acceptors_def is_at_def)

lemma send_Ret:
  "send x c = Some (Ret d) \<Longrightarrow> buf d = buf c @ [x] \<and> closed d = closed c \<and> cap d = cap c \<and> length (buf d) \<le> cap d"
  by (auto simp: send_def has_room_def split: if_splits)

lemma new_hub_ok: "hub_ok (new_hub specs)"
proof -
  have none: "(\<Sum>i\<leftarrow>is. mset (offered h i)) = {#}" if "\<forall>i \<in> set is. offered h i = []" for h "is"
    using that by (induction "is") auto
  have "in_hand (new_hub specs) = {#}"
    unfolding in_hand_def by (rule none) (simp add: offered_def new_hub_def)
  then show ?thesis by (simp add: hub_ok_def) (simp add: new_hub_def)
qed

lemma hub_frame [simp]:
  "in_hand (h\<lparr>h_accepted := xs\<rparr>) = in_hand h" "in_hand (h\<lparr>h_acceptCh := ac\<rparr>) = in_hand h"
  "in_hand (h\<lparr>h_errCh := ec\<rparr>) = in_hand h" "in_hand (h\<lparr>h_refused := xs\<rparr>) = in_hand h"
  "in_hand (h\<lparr>h_served := xs\<rparr>) = in_hand h" "in_hand (h\<lparr>h_result := r\<rparr>) = in_hand h"
  "in_hand (h\<lparr>h_stop := b\<rparr>) = in_hand h" "in_hand (h\<lparr>h_listening := b\<rparr>) = in_hand h"
  "returned_acceptors (h\<lparr>h_listening := b\<rparr>) = returned_acceptors h"
  "is_at i a (h\<lparr>h_accepted := xs\<rparr>) = is_at i a h" "is_at i a (h\<lparr>h_acceptCh := ac\<rparr>) = is_at i a h"
  "is_at i a (h\<lparr>h_errCh := ec\<rparr>) = is_at i a h" "is_at i a (h\<lparr>h_refused := xs\<rparr>) = is_at i a h"
  "returned_acceptors (h\<lparr>h_accepted := xs\<rparr>) = returned_acceptors h"
  "returned_acceptors (h\<lparr>h_acceptCh := ac\<rparr>) = returned_acceptors h"
  "returned_acceptors (h\<lparr>h_errCh := ec\<rparr>) = returned_acceptors h"
  "returned_acceptors (h\<lparr>h_refused := xs\<rparr>) = returned_acceptors h"
  "returned_acceptors (h\<lparr>h_served := xs\<rparr>) = returned_acceptors h"
  "returned_acceptors (h\<lparr>h_result := r\<rparr>) = returned_acceptors h"
  "returned_acceptors (h\<lparr>h_stop := b\<rparr>) = returned_acceptors h"
  by (simp_all add: in_hand_def offered_def is_at_def returned_acceptors_def)

lemma hub_ok_step:
  assumes "hub_step h h'" and "hub_ok h"
  shows "hub_ok h'"
  using assms
proof (cases rule: hub_step.cases)
  case (accept i n)
  let ?h = "h\<lparr>h_accepted := h_accepted h @ [(n, h_specs h ! i)]\<rparr>"
  have "is_at i Accepting ?h" using accept by simp
  from goes_to_in_hand [OF this, of "Offering n"] goes_to_returned [OF this, of "Offering n"]
  show ?thesis using accept assms(2) by (simp add: hub_ok_def)
next
  case (accept_fails i e)
  let ?a = "if h_stop h then Returned else Reporting (listener_closed (h_specs h ! i) e)"
  from goes_to_in_hand [OF accept_fails(2), of ?a] goes_to_returned [OF accept_fails(2), of ?a]
  show ?thesis using accept_fails assms(2) by (auto simp: hub_ok_def split: if_splits)
next
  case (report i m ch)
  let ?h = "h\<lparr>h_errCh := ch\<rparr>"
  have "is_at i (Reporting m) ?h" using report by simp
  from goes_to_in_hand [OF this, of Returned] goes_to_returned [OF this, of Returned]
  show ?thesis using report assms(2) send_Ret [OF report(3)] by (auto simp: hub_ok_def)
next
  case (hand_over i n ch)
  let ?h = "h\<lparr>h_acceptCh := ch\<rparr>"
  have "is_at i (Offering n) ?h" using hand_over by simp
  from goes_to_in_hand [OF this, of Accepting] goes_to_returned [OF this, of Accepting]
  show ?thesis using hand_over assms(2) send_Ret [OF hand_over(3)] by (auto simp: hub_ok_def)
next
  case (refuse i n)
  let ?h = "h\<lparr>h_refused := h_refused h @ [(n, h_specs h ! i)]\<rparr>"
  have "is_at i (Offering n) ?h" using refuse by simp
  from goes_to_in_hand [OF this, of Returned] goes_to_returned [OF this, of Returned]
  show ?thesis using refuse assms(2) by (auto simp: hub_ok_def)
next
  case (serve x ch)
  then show ?thesis using assms(2) recv_frame [OF serve(3)] by (auto simp: hub_ok_def)
next
  case (listener_failed e ch)
  then show ?thesis using assms(2) recv_frame [OF listener_failed(3)] by (auto simp: hub_ok_def)
qed (auto simp: hub_ok_def)

lemma hub_specs: "hub_reach (new_hub specs) h \<Longrightarrow> h_specs h = specs"
proof (induction rule: hub_reach.induct)
  case (hub_more h h')
  from hub_more.hyps(2) have "h_specs h' = h_specs h" by (cases rule: hub_step.cases) auto
  then show ?case using hub_more.IH by simp
qed (simp add: new_hub_def)

lemma hub_ok_reach: "hub_reach h0 h \<Longrightarrow> hub_ok h0 \<Longrightarrow> hub_ok h"
  by (induction rule: hub_reach.induct) (auto intro: hub_ok_step)

lemma count_list_less: "i < length xs \<Longrightarrow> xs ! i \<noteq> x \<Longrightarrow> count_list xs x < length xs"
  using count_list_update [of i xs x x] count_le_length [of "xs[i := x]" x] by simp

lemma report_has_room: "hub_ok h \<Longrightarrow> is_at i (Reporting m) h \<Longrightarrow> has_room (h_errCh h)"
  using count_list_less [of i "h_acceptors h" Returned]
  by (simp add: hub_ok_def is_at_def has_room_def returned_acceptors_def)

text \<open>Nothing waiting in \<open>acceptCh\<close> is served or closed any more once \<open>connect\<close> has returned.\<close>

lemma hub_over_step:
  "hub_step h h' \<Longrightarrow> h_result h \<noteq> None \<Longrightarrow>
     h_result h' = h_result h \<and> h_served h' = h_served h \<and> prefix (buf (h_acceptCh h)) (buf (h_acceptCh h'))"
  by (induction rule: hub_step.induct) (auto dest: send_Ret)

lemma hub_over:
  "hub_reach h0 h \<Longrightarrow> h_result h0 \<noteq> None \<Longrightarrow>
     h_result h = h_result h0 \<and> h_served h = h_served h0 \<and> prefix (buf (h_acceptCh h0)) (buf (h_acceptCh h))"
  by (induction rule: hub_reach.induct) (auto dest!: hub_over_step)

text \<open>A stopped tunnel lets each of its accepting goroutines return, one step each.\<close>

lemma acceptor_returns:
  assumes "hub_ok h" and "h_stop h" and "i < length (h_acceptors h)" and "h_acceptors h ! i \<noteq> Returned"
  shows "\<exists>h'. hub_step h h' \<and> h_acceptors h' = (h_acceptors h)[i := Returned] \<and> h_stop h' \<and> h_result h' = h_result h"
proof (cases "h_acceptors h ! i")
  case Accepting
  then have "is_at i Accepting h" using assms(3) by (simp add: is_at_def)
  from accept_fails [OF this] assms(2) show ?thesis by (intro exI [of _ "goes_to i Returned h"]) simp
next
  case (Offering n)
  then have "is_at i (Offering n) h" using assms(3) by (simp add: is_at_def)
  from refuse [OF this assms(2)] assms(2) show ?thesis
    by (intro exI [of _ "goes_to i Returned (h\<lparr>h_refused := h_refused h @ [(n, h_specs h ! i)]\<rparr>)"]) simp
next
  case (Reporting m)
  then have a: "is_at i (Reporting m) h" using assms(3) by (simp add: is_at_def)
  have "send m (h_errCh h) = Some (Ret ((h_errCh h)\<lparr>buf := buf (h_errCh h) @ [m]\<rparr>))"
    using report_has_room [OF assms(1) a] assms(1) by (simp add: send_def hub_ok_def)
  from report [OF a this] assms(2) show ?thesis
    by (intro exI [of _ "goes_to i Returned (h\<lparr>h_errCh := (h_errCh h)\<lparr>buf := buf (h_errCh h) @ [m]\<rparr>\<rparr>)"]) simp
qed (use assms in simp)

lemma hub_reach_step: "hub_step h h1 \<Longrightarrow> hub_reach h1 h2 \<Longrightarrow> hub_reach h h2"
  by (rotate_tac, induction rule: hub_reach.induct) (auto intro: hub_reach.intros)

lemma acceptors_return:
  "hub_ok h \<Longrightarrow> h_stop h \<Longrightarrow>
     \<exists>h'. hub_reach h h' \<and> set (h_acceptors h') \<subseteq> {Returned} \<and> h_stop h' \<and> h_result h' = h_result h"
proof (induction "length (h_acceptors h) - count_list (h_acceptors h) Returned" arbitrary: h rule: less_induct)
  case less
  show ?case
  proof (cases "set (h_acceptors h) \<subseteq> {Returned}")
    case False
    then obtain i where i: "i < length (h_acceptors h)" "h_acceptors h ! i \<noteq> Returned"
      by (metis in_set_conv_nth singletonI subsetI)
    obtain h1 where h1: "hub_step h h1" "h_acceptors h1 = (h_acceptors h)[i := Returned]" "h_stop h1"
        "h_result h1 = h_result h"
      using acceptor_returns [OF less.prems i] by blast
    have "length (h_acceptors h1) - count_list (h_acceptors h1) Returned <
        length (h_acceptors h) - count_list (h_acceptors h) Returned"
      using count_list_update [OF i(1), of Returned Returned] count_list_less [OF i] i by (simp add: h1(2))
    from less.hyps [OF this hub_ok_step [OF h1(1) less.prems(1)] h1(3)] show ?thesis
      using h1(1,4) hub_reach_step by metis
  qed (use less.prems hub_start in blast)
qed

text \<open>The steps a goroutine of a listener can still take once the tunnel is stopped and its listeners are closed.\<close>

definition closed_down :: "Hub \<Rightarrow> bool" where
  "closed_down h \<longleftrightarrow> h_stop h \<and> h_result h \<noteq> None \<and> \<not> h_listening h"

definition steps_left :: "acceptor \<Rightarrow> nat" where
  "steps_left a = (case a of Accepting \<Rightarrow> 1 | Offering n \<Rightarrow> 2 | Reporting e \<Rightarrow> 1 | Returned \<Rightarrow> 0)"

definition work_left :: "Hub \<Rightarrow> nat" where
  "work_left h = sum_list (map steps_left (h_acceptors h))"

lemma sum_list_less_update:
  "i < length xs \<Longrightarrow> f a < f (xs ! i) \<Longrightarrow> sum_list (map f (xs[i := a])) < sum_list (map f xs)" for f :: "'a \<Rightarrow> nat"
proof (induction xs arbitrary: i)
  case (Cons x xs)
  then show ?case by (cases i) auto
qed simp

lemma goes_to_work: "is_at i b h \<Longrightarrow> steps_left a < steps_left b \<Longrightarrow> work_left (goes_to i a h) < work_left h"
  using sum_list_less_update [of i "h_acceptors h" steps_left a] by (simp add: work_left_def is_at_def)

lemma work_frame [simp]:
  "work_left (h\<lparr>h_acceptCh := ac\<rparr>) = work_left h" "work_left (h\<lparr>h_errCh := ec\<rparr>) = work_left h"
  "work_left (h\<lparr>h_refused := xs\<rparr>) = work_left h"
  by (simp_all add: work_left_def)

lemma stopped_step_works:
  assumes "hub_step h h'" and "closed_down h" and "h' \<noteq> h"
  shows "work_left h' < work_left h"
  using assms(1)
proof (cases rule: hub_step.cases)
  case (accept_fails i e)
  then show ?thesis using goes_to_work [of i Accepting h Returned] assms(2) by (simp add: steps_left_def closed_down_def)
next
  case (report i m ch)
  then show ?thesis using goes_to_work [of i "Reporting m" "h\<lparr>h_errCh := ch\<rparr>" Returned] by (simp add: steps_left_def)
next
  case (hand_over i n ch)
  then show ?thesis using goes_to_work [of i "Offering n" "h\<lparr>h_acceptCh := ch\<rparr>" Accepting] by (simp add: steps_left_def)
next
  case (refuse i n)
  then show ?thesis
    using goes_to_work [of i "Offering n" "h\<lparr>h_refused := h_refused h @ [(n, h_specs h ! i)]\<rparr>" Returned]
    by (simp add: steps_left_def)
next
  case stop
  then show ?thesis using assms(2,3) by (simp add: closed_down_def)
next
  case listeners_close
  then show ?thesis using assms(2,3) by (simp add: closed_down_def)
qed (use assms(2) in \<open>simp_all add: closed_down_def\<close>)

lemma work_bound: "work_left h \<le> 2 * length (h_acceptors h)"
proof -
  have "sum_list (map steps_left xs) \<le> 2 * length xs" for xs
    by (induction xs) (auto simp: steps_left_def split: acceptor.split)
  then show ?thesis by (simp add: work_left_def)
qed

text \<open>A run in which every step changes the state.\<close>

fun stopped_run :: "Hub \<Rightarrow> Hub list \<Rightarrow> bool" where
  "stopped_run h [] = True"
| "stopped_run h (h' # hs) = (hub_step h h' \<and> h' \<noteq> h \<and> stopped_run h' hs)"

lemma stopped_stays: "hub_step h h' \<Longrightarrow> closed_down h \<Longrightarrow> closed_down h'"
  unfolding closed_down_def by (induction rule: hub_step.induct) simp_all

lemma stopped_run_bound:
  "stopped_run h hs \<Longrightarrow> closed_down h \<Longrightarrow> length hs \<le> work_left h"
proof (induction h hs rule: stopped_run.induct)
  case (2 h h' hs)
  then have step: "hub_step h h'" "h' \<noteq> h" "stopped_run h' hs" by simp_all
  have "length hs \<le> work_left h'" using "2.IH" "2.prems" stopped_stays [OF step(1)] step(3) by simp
  moreover have "work_left h' < work_left h" using stopped_step_works [OF step(1)] "2.prems" step(2) by simp
  ultimately show ?case by simp
qed simp

section \<open>Properties\<close>

text \<open>C27. The retry loop sleeps one second after the first failed attempt, twice as long after each further one and
  never more than thirty seconds, and returns exactly when an attempt ends without an error or it finds the
  tunnel stopped. A connection that was up in between does not start the pauses again.\<close>

theorem reverse_retry_pauses:
  "run_tunnel second as =
     (map (\<lambda>k. min (2 ^ k * second) (30 * second)) [0..<length (takeWhile retries as)],
      list_ex (\<lambda>a. \<not> retries a) as)"
  using reverse_run.loop_result [of second as] by (simp add: intervals max_interval_def)

text \<open>C6. Setting a connection up is all or nothing: on an error every remote listener opened so far and the
  connection are closed again, and on success there is one open listener per forward, in order, opened after the
  holders of every remote port were looked for. Either way every session used to clear the ports has been
  ended.\<close>

theorem connect_is_all_or_nothing:
  "case connect_setup denv kenv env t disk of
     (Inl e, l, disk') \<Rightarrow> unlistened l = listened l \<and> open_clients l = 0 \<and> open_sessions l = 0
   | (Inr (proxy, opened), l, disk') \<Rightarrow> opened = t_forwards t \<and>
       listened l = map (remote_addr (t_cfg t)) (t_forwards t) \<and> unlistened l = [] \<and>
       open_clients l = 1 \<and> open_sessions l = 0 \<and> list_all (searched (before_listening l)) (remotePorts t)"
proof (cases "dial_server denv (t_cfg t)")
  case None
  define l where "l = snd (killRemotePortHolders env (remotePorts t) [ClientConnected])"
  have "extends [ClientConnected] l" unfolding l_def by (rule kill_ports_extends)
  note l = extends_log [OF this]
  have c: "clears (remotePorts t) [ClientConnected] l" unfolding l_def by (rule kill_ports_clears)
  obtain p disk' where p: "make_proxy kenv t disk = (p, disk')" by fastforce
  obtain e opened l' where o: "open_listeners env (t_cfg t) (t_forwards t) l = (e, opened, l')" by (metis prod_cases3)
  show ?thesis
    using open_listeners_log [OF o] l before_listening_searched [OF c open_listeners_prefix [OF o]]
    by (cases p; cases e) (simp_all add: connect_setup_def None l_def [symmetric] p o tear_down_log)
qed (simp add: connect_setup_def listened_def unlistened_def open_clients_def open_sessions_def)

text \<open>C15. Every connection accepted on a remote listener is in exactly one place: with its listener's goroutine,
  in the queue, served, or closed; none is served twice, and each keeps the forward it came in on. A goroutine
  that reports the death of its listener never blocks, because the error queue has room for every listener.\<close>

theorem accepted_connections_are_accounted_for:
  assumes "hub_reach (new_hub specs) h"
  shows "mset (h_accepted h) = in_hand h + mset (buf (h_acceptCh h)) + mset (h_served h) + mset (h_refused h) \<and>
    distinct (map fst (h_served h @ h_refused h)) \<and> length (buf (h_acceptCh h)) \<le> 8 \<and>
    list_all (\<lambda>i. case h_acceptors h ! i of Reporting m \<Rightarrow> has_room (h_errCh h) | _ \<Rightarrow> True)
      [0..<length (h_acceptors h)]"
proof -
  have ok: "hub_ok h" using hub_ok_reach [OF assms new_hub_ok] .
  then have m: "mset (h_accepted h) = in_hand h + mset (buf (h_acceptCh h)) + mset (h_served h) + mset (h_refused h)"
    and d: "map fst (h_accepted h) = [0..<length (h_accepted h)]"
    by (simp_all add: hub_ok_def)
  have "mset (map fst (h_served h @ h_refused h)) \<subseteq># mset (map fst (h_accepted h))"
    using m by (simp add: image_mset_subseteq_mono)
  then have "distinct (map fst (h_served h @ h_refused h))"
    unfolding d
    by (metis distinct_append distinct_upt ex_mset mset_append mset_eq_imp_distinct_iff subset_mset.le_iff_add)
  moreover have "case h_acceptors h ! i of Reporting m \<Rightarrow> has_room (h_errCh h) | _ \<Rightarrow> True"
    if "i < length (h_acceptors h)" for i
    using report_has_room [OF ok, of i] that by (auto simp: is_at_def split: acceptor.split)
  ultimately show ?thesis using m ok by (simp add: hub_ok_def list_all_iff)
qed

definition web_spec :: ForwardSpec where
  "web_spec = \<lparr>Label = ''web'', RemotePort = 18080, TargetHost = ''127.0.0.1'', TargetPort = 8080\<rparr>"

text \<open>One connection, accepted, queued and served, and then a stop.\<close>

definition served_hub :: Hub where
  "served_hub = (new_hub [web_spec])\<lparr>h_accepted := [(0, web_spec)], h_served := [(0, web_spec)], h_stop := True\<rparr>"

lemma served_hub_reached: "hub_reach (new_hub [web_spec]) served_hub"
proof -
  let ?h0 = "new_hub [web_spec]"
  let ?h1 = "goes_to 0 (Offering 0) (?h0\<lparr>h_accepted := [(0, web_spec)]\<rparr>)"
  let ?c = "(make_chan 8 :: (nat \<times> ForwardSpec) chan)\<lparr>buf := [(0, web_spec)]\<rparr>"
  let ?h2 = "goes_to 0 Accepting (?h1\<lparr>h_acceptCh := ?c\<rparr>)"
  let ?h3 = "?h2\<lparr>h_acceptCh := make_chan 8, h_served := [(0, web_spec)]\<rparr>"
  have "hub_step ?h0 ?h1"
    using accept [of 0 ?h0 0] by (simp add: new_hub_def is_at_def)
  moreover have "hub_step ?h1 ?h2"
    using hand_over [of 0 0 ?h1 ?c] by (simp add: new_hub_def is_at_def goes_to_def send_def has_room_def make_chan_def)
  moreover have "hub_step ?h2 ?h3"
    using serve [of ?h2 "(0, web_spec)" "make_chan 8"]
    by (simp add: new_hub_def goes_to_def recv_def make_chan_def)
  moreover have "hub_step ?h3 served_hub"
    using stop [of ?h3] by (simp add: new_hub_def goes_to_def served_hub_def)
  ultimately show ?thesis by (meson hub_start hub_more)
qed

theorem accepted_connections_are_accounted_for_witness:
  "mset (h_accepted served_hub) = in_hand served_hub + mset (buf (h_acceptCh served_hub)) +
     mset (h_served served_hub) + mset (h_refused served_hub) \<and> h_served served_hub = [(0, web_spec)]"
  using accepted_connections_are_accounted_for [OF served_hub_reached] by (simp add: served_hub_def)

text \<open>A tunnel that is told to stop can always finish: from every state its accept loops can be in, each of its
  goroutines can still return and so can the loop of \<open>connect\<close>, with whatever was queued or being reported.\<close>

theorem stopped_tunnel_can_finish:
  assumes "hub_reach (new_hub specs) h" and "h_stop h"
  shows "\<exists>h'. hub_reach h h' \<and> set (h_acceptors h') \<subseteq> {Returned} \<and> h_result h' \<noteq> None"
proof -
  obtain h1 where h1: "hub_reach h h1" "set (h_acceptors h1) \<subseteq> {Returned}" "h_stop h1" "h_result h1 = h_result h"
    using acceptors_return [OF hub_ok_reach [OF assms(1) new_hub_ok] assms(2)] by blast
  show ?thesis
  proof (cases "h_result h1")
    case None
    from hub_more [OF h1(1) stopping [OF None h1(3)]] h1(2) show ?thesis by fastforce
  qed (use h1 in auto)
qed

theorem stopped_tunnel_can_finish_witness:
  "\<exists>h'. hub_reach served_hub h' \<and> set (h_acceptors h') \<subseteq> {Returned} \<and> h_result h' \<noteq> None"
  using stopped_tunnel_can_finish [OF served_hub_reached] by (simp add: served_hub_def)

text \<open>C22. A stopped tunnel comes to rest: once \<open>connect\<close> has returned after a stop and closed its listeners, no schedule of its accepting
  goroutines has more than two steps per listener, and where no step is left every one of them has returned.\<close>

theorem stopped_tunnel_comes_to_rest:
  assumes "hub_reach (new_hub specs) h" and "h_stop h" and "\<not> h_listening h" and "stopped_run h hs"
  shows "length hs \<le> 2 * length specs \<and>
    ((\<forall>h'. hub_step (last (h # hs)) h' \<longrightarrow> h' = last (h # hs)) \<longrightarrow>
       set (h_acceptors (last (h # hs))) \<subseteq> {Returned})"
proof -
  have ok: "hub_ok h" using hub_ok_reach [OF assms(1) new_hub_ok] .
  have specs: "h_specs h = specs" using assms(1) by (rule hub_specs)
  have down: "closed_down h" using assms(2,3) ok by (auto simp: closed_down_def hub_ok_def)
  have "length hs \<le> 2 * length specs"
    using stopped_run_bound [OF assms(4) down] work_bound [of h] ok specs by (simp add: hub_ok_def)
  moreover have "hub_ok (last (h # hs)) \<and> closed_down (last (h # hs))"
    using assms(4) down ok
  proof (induction h hs rule: stopped_run.induct)
    case (2 h h' hs)
    then have step: "hub_step h h'" "stopped_run h' hs" by simp_all
    show ?case using "2.IH" "2.prems" stopped_stays [OF step(1)] hub_ok_step [OF step(1)] step(2) by simp
  qed simp
  moreover have "set (h_acceptors g) \<subseteq> {Returned}"
    if g: "hub_ok g" "closed_down g" "\<forall>h'. hub_step g h' \<longrightarrow> h' = g" for g
  proof
    fix a assume "a \<in> set (h_acceptors g)"
    then obtain i where i: "i < length (h_acceptors g)" "a = h_acceptors g ! i" by (auto simp: in_set_conv_nth)
    show "a \<in> {Returned}"
    proof (rule ccontr)
      assume "a \<notin> {Returned}"
      then obtain g' where "hub_step g g'" "h_acceptors g' = (h_acceptors g)[i := Returned]"
        using acceptor_returns [OF g(1) _ i(1)] i(2) g(2) by (auto simp: closed_down_def)
      then have "h_acceptors g ! i = Returned" using g(3) i(1) by (metis nth_list_update_eq)
      then show False using \<open>a \<notin> {Returned}\<close> i(2) by simp
    qed
  qed
  ultimately show ?thesis by blast
qed

definition ended_hub :: Hub where
  "ended_hub = served_hub\<lparr>h_result := Some None, h_listening := False\<rparr>"

lemma ended_hub_reached: "hub_reach (new_hub [web_spec]) ended_hub"
proof -
  have "hub_step served_hub (served_hub\<lparr>h_result := Some None\<rparr>)"
    by (rule stopping) (simp_all add: served_hub_def new_hub_def)
  then have "hub_reach (new_hub [web_spec]) (served_hub\<lparr>h_result := Some None\<rparr>)"
    by (rule hub_more [OF served_hub_reached])
  moreover have "hub_step (served_hub\<lparr>h_result := Some None\<rparr>) ended_hub"
    unfolding ended_hub_def using listeners_close [of "served_hub\<lparr>h_result := Some None\<rparr>"] by simp
  ultimately show ?thesis by (rule hub_more)
qed

theorem stopped_tunnel_comes_to_rest_witness:
  "hub_step ended_hub (goes_to 0 Returned ended_hub) \<and> length [goes_to 0 Returned ended_hub] \<le> 2 * length [web_spec]"
proof -
  have e: "is_at 0 Accepting ended_hub" "h_stop ended_hub" "\<not> h_listening ended_hub"
    by (simp_all add: ended_hub_def served_hub_def new_hub_def is_at_def)
  then have s: "hub_step ended_hub (goes_to 0 Returned ended_hub)"
    using accept_fails [OF e(1)] by simp
  have "goes_to 0 Returned ended_hub \<noteq> ended_hub"
    using goes_to_work [OF e(1), of Returned] by (auto simp: steps_left_def)
  then have "stopped_run ended_hub [goes_to 0 Returned ended_hub]" using s by simp
  then show ?thesis using stopped_tunnel_comes_to_rest [OF ended_hub_reached e(2,3)] s by blast
qed

text \<open>A forwarded connection carries what both sides send, in order, until the first of them ends; then both directions
  are closed, and what the other side had still to say is lost.\<close>

theorem forward_copies_until_an_end:
  "forward dial spec es =
     (case dial (JoinHostPort (TargetHost spec) (itoa (TargetPort spec))) of
        Some e \<Rightarrow> ([], [], True)
      | None \<Rightarrow>
          (let open_part = takeWhile (\<lambda>e. e \<noteq> EndA \<and> e \<noteq> EndB) es in
           (concat (map (\<lambda>e. case e of FromA d \<Rightarrow> d | _ \<Rightarrow> []) open_part),
            concat (map (\<lambda>e. case e of FromB d \<Rightarrow> d | _ \<Rightarrow> []) open_part), EndA \<in> set es \<or> EndB \<in> set es)))"
  by (simp add: forward_def Let_def relay_prefix split: option.split)

theorem half_closed_request_gets_no_answer:
  "dial (JoinHostPort (TargetHost spec) (itoa (TargetPort spec))) = None \<Longrightarrow>
     forward dial spec (FromA request # EndA # FromB answer # es) = (request, [], True)"
  by (simp add: forward_def)

text \<open>The proxy \<open>connect\<close> makes can serve its connections: its \<open>Serve\<close> closes none for its authentication type.\<close>

theorem proxy_of_a_tunnel_serves:
  assumes "make_proxy kenv t disk = (Inr (Some b), disk')" and "set_key (pb_hostKeyPEM b) = None"
  shows "Serve set_key b \<noteq> None \<and> pb_cfg b = t_cfg t \<and> disk' = Some (pb_hostKeyPEM b)"
  using assms
  by (auto simp: make_proxy_def Serve_def NewProxyBridge_def LoadOrGenerateHostKeyPEM_def Let_def
      split: if_splits option.splits sum.splits prod.splits)

end
