(* ===== verification/LocalForward.thy ===== *)
theory LocalForward
  imports ReverseTunnel
begin

text \<open>
  \<open>internal/tunnel/localforward.go\<close>: the other direction, a listener on this side whose connections are
  dialled from the SSH server. \<open>serve\<close> is modelled in two phases like \<open>connect\<close>: \<open>serve_setup\<close>, and
  \<open>serve_step\<close>, the steps of the accept loop and of the two goroutines that close its listener.
\<close>

section \<open>The tunnel\<close>

record LocalForward =
  lf_cfg :: ReverseTunnelConfig
  lf_stopCh :: "unit chan"
  lf_once :: bool
  lf_wg :: nat

definition NewLocalForward :: "ReverseTunnelConfig \<Rightarrow> LocalForward" where
  "NewLocalForward cfg = \<lparr>lf_cfg = cfg, lf_stopCh = make_chan 0, lf_once = False, lf_wg = 0\<rparr>"

definition StartLocal :: "LocalForward \<Rightarrow> LocalForward" where
  "StartLocal t = t\<lparr>lf_wg := Suc (lf_wg t)\<rparr>"

definition StopLocal :: "LocalForward \<Rightarrow> LocalForward outcome" where
  "StopLocal t =
     (if lf_once t then Ret t
      else then_do (close_chan (lf_stopCh t)) (\<lambda>c. Ret (t\<lparr>lf_stopCh := c, lf_once := True\<rparr>)))"

interpretation local_life: tunnel_interface StartLocal StopLocal "\<lambda>t. closed (lf_stopCh t)" lf_wg
    "\<lambda>t. lf_once t = closed (lf_stopCh t)"
  by unfold_locales (auto simp: StartLocal_def StopLocal_def close_chan_def)

fun run_local :: "int \<Rightarrow> attempt list \<Rightarrow> int list \<times> bool" where
  "run_local interval [] = ([], False)"
| "run_local interval (Ended # as) = ([], True)"
| "run_local interval (Failed err stop # as) =
     (if stop then ([], True)
      else (let (slept, returned) = run_local (next_interval interval) as in (interval # slept, returned)))"

interpretation local_run: retrying run_local
  by unfold_locales (auto simp: split_beta)

section \<open>Setting up\<close>

definition local_addr :: "ReverseTunnelConfig \<Rightarrow> string" where
  "local_addr cfg = JoinHostPort (default_to '''' ''127.0.0.1'' (rt_BindAddress cfg)) (itoa (rt_LocalPort cfg))"

definition target_addr :: "ReverseTunnelConfig \<Rightarrow> string" where
  "target_addr cfg = JoinHostPort (default_to '''' ''127.0.0.1'' (rt_TargetHost cfg)) (itoa (rt_RemotePort cfg))"

text \<open>
  \<open>serve\<close> up to its accept loop: an error with the log of the deferred calls included, or the address
  connections are forwarded to.
\<close>

definition serve_setup ::
  "dial_env \<Rightarrow> (string \<Rightarrow> error option) \<Rightarrow> LocalForward \<Rightarrow> (error + string) \<times> net_act list" where
  "serve_setup denv listen t =
     (case dial_server denv (lf_cfg t) of
        Some e \<Rightarrow> (Inl e, [])
      | None \<Rightarrow>
          (let addr = local_addr (lf_cfg t) in
           case listen addr of
             Some e \<Rightarrow> (Inl (''local listen on '' @ addr @ '': '' @ e),
                        [ClientConnected, ListenFailed addr, ClientDown])
           | None \<Rightarrow> (Inr (target_addr (lf_cfg t)), [ClientConnected, Listening addr])))"

section \<open>The accept loop\<close>

text \<open>
  The goroutine that waits for the SSH connection to end: waiting, having put the reason on \<open>sshClosed\<close>,
  done. \<open>client.Wait()\<close> may return no error, which the message formats as Go does.
\<close>

datatype watcher = Watching | Told | WatcherDone

record LocalLoop =
  ll_addr :: string
  ll_listening :: bool
  ll_stop :: bool
  ll_watcher :: watcher
  ll_sshClosed :: "error option chan"
  ll_result :: "error option option"
  ll_accepted :: nat

definition new_loop :: "string \<Rightarrow> LocalLoop" where
  "new_loop addr = \<lparr>ll_addr = addr, ll_listening = True, ll_stop = False, ll_watcher = Watching,
     ll_sshClosed = make_chan 1, ll_result = None, ll_accepted = 0\<rparr>"

definition shown_error :: "error option \<Rightarrow> string" where
  "shown_error e = (case e of None \<Rightarrow> ''%!w(<nil>)'' | Some m \<Rightarrow> m)"

text \<open>What the loop returns when \<open>Accept\<close> fails.\<close>

definition accept_error :: "error \<Rightarrow> LocalLoop \<Rightarrow> LocalLoop" where
  "accept_error aerr s =
     (if ll_stop s then s\<lparr>ll_result := Some None\<rparr>
      else (case recv (ll_sshClosed s) of
          Some (werr, ch) \<Rightarrow>
            s\<lparr>ll_sshClosed := ch, ll_result := Some (Some (''ssh connection closed: '' @ shown_error werr))\<rparr>
        | None \<Rightarrow>
            s\<lparr>ll_result := Some (Some (''local accept on '' @ ll_addr s @ '': '' @ aerr))\<rparr>))"

inductive serve_step :: "LocalLoop \<Rightarrow> LocalLoop \<Rightarrow> bool" where
  local_accept: "ll_result s = None \<Longrightarrow> ll_listening s \<Longrightarrow> serve_step s (s\<lparr>ll_accepted := Suc (ll_accepted s)\<rparr>)"
| local_error: "ll_result s = None \<Longrightarrow> serve_step s ((accept_error aerr s)\<lparr>ll_listening := False\<rparr>)"
| local_stop: "serve_step s (s\<lparr>ll_stop := True\<rparr>)"
| stop_seen: "ll_stop s \<Longrightarrow> serve_step s (s\<lparr>ll_listening := False\<rparr>)"
| ssh_ended: "ll_watcher s = Watching \<Longrightarrow> send werr (ll_sshClosed s) = Some (Ret ch) \<Longrightarrow>
     serve_step s (s\<lparr>ll_sshClosed := ch, ll_watcher := Told\<rparr>)"
| watcher_shuts: "ll_watcher s = Told \<Longrightarrow> serve_step s (s\<lparr>ll_listening := False, ll_watcher := WatcherDone\<rparr>)"

inductive serve_reach :: "LocalLoop \<Rightarrow> LocalLoop \<Rightarrow> bool" for s0 where
  serve_start: "serve_reach s0 s0"
| serve_more: "serve_reach s0 s \<Longrightarrow> serve_step s s' \<Longrightarrow> serve_reach s0 s'"

text \<open>One connection, dialled over the SSH connection.\<close>

definition handle :: "(string \<Rightarrow> error option) \<Rightarrow> string \<Rightarrow> copy_event list \<Rightarrow> bytes \<times> bytes \<times> bool" where
  "handle dial addr es = (case dial addr of Some e \<Rightarrow> ([], [], True) | None \<Rightarrow> relay es)"

section \<open>Lemmas\<close>

text \<open>
  While the loop runs, its listener is closed only for a reason it can find: the stop, or a value on
  \<open>sshClosed\<close>; and that channel never blocks its only sender.
\<close>

definition loop_ok :: "LocalLoop \<Rightarrow> bool" where
  "loop_ok s \<longleftrightarrow> cap (ll_sshClosed s) = 1 \<and> \<not> closed (ll_sshClosed s) \<and>
     (ll_watcher s = Watching \<longrightarrow> buf (ll_sshClosed s) = []) \<and>
     (ll_result s = None \<longrightarrow>
        (ll_watcher s \<noteq> Watching \<longrightarrow> buf (ll_sshClosed s) \<noteq> []) \<and>
        (ll_listening s \<or> ll_stop s \<or> ll_watcher s = WatcherDone)) \<and>
     (ll_result s = Some None \<longrightarrow> ll_stop s)"

lemma new_loop_ok: "loop_ok (new_loop addr)"
  by (simp add: loop_ok_def new_loop_def)

lemma loop_ok_step: "serve_step s s' \<Longrightarrow> loop_ok s \<Longrightarrow> loop_ok s'"
  by (induction rule: serve_step.induct)
    (auto simp: loop_ok_def accept_error_def send_def has_room_def recv_def split: option.splits list.splits if_splits)

lemma loop_ok_reach: "serve_reach s0 s \<Longrightarrow> loop_ok s0 \<Longrightarrow> loop_ok s"
  by (induction rule: serve_reach.induct) (auto intro: loop_ok_step)

section \<open>Properties\<close>

text \<open>C29. The accept loop of a local forward reports why it ended. When its listener was closed, the loop either
  returns without an error, because the tunnel was stopped, or with the error of the SSH connection, never with
  the error of the listener itself; and the goroutine that watches the SSH connection never blocks.\<close>

theorem local_forward_reports_the_reason:
  assumes "serve_reach (new_loop addr) s" and "ll_result s = None" and "\<not> ll_listening s"
  shows "(if ll_stop s then ll_result (accept_error aerr s) = Some None
          else \<exists>werr. ll_result (accept_error aerr s) = Some (Some (''ssh connection closed: '' @ shown_error werr))) \<and>
    (ll_watcher s \<noteq> Watching \<or> has_room (ll_sshClosed s))"
proof -
  have ok: "loop_ok s" using loop_ok_reach [OF assms(1) new_loop_ok] .
  then show ?thesis using assms(2,3)
    by (cases "buf (ll_sshClosed s)") (auto simp: loop_ok_def accept_error_def recv_def has_room_def)
qed

definition dropped_loop :: LocalLoop where
  "dropped_loop = (new_loop ''127.0.0.1:19825'')\<lparr>ll_listening := False, ll_watcher := WatcherDone,
     ll_sshClosed := (make_chan 1)\<lparr>buf := [Some ''EOF'']\<rparr>\<rparr>"

lemma dropped_loop_reached: "serve_reach (new_loop ''127.0.0.1:19825'') dropped_loop"
proof -
  let ?s0 = "new_loop ''127.0.0.1:19825''"
  let ?s1 = "?s0\<lparr>ll_sshClosed := (make_chan 1)\<lparr>buf := [Some ''EOF'']\<rparr>, ll_watcher := Told\<rparr>"
  have "serve_step ?s0 ?s1"
    by (rule ssh_ended) (simp_all add: new_loop_def send_def has_room_def make_chan_def)
  moreover have "serve_step ?s1 dropped_loop"
    using watcher_shuts [of ?s1] by (simp add: dropped_loop_def new_loop_def)
  ultimately show ?thesis by (meson serve_start serve_more)
qed

theorem local_forward_reports_the_reason_witness:
  "\<exists>werr. ll_result (accept_error ''closed'' dropped_loop) =
     Some (Some (''ssh connection closed: '' @ shown_error werr))"
  using local_forward_reports_the_reason [OF dropped_loop_reached, of "''closed''"]
  by (simp add: dropped_loop_def new_loop_def)

text \<open>The defaults of \<open>applyDefaults\<close> come first: an entry whose \<open>bind_address\<close> was left out is listened to on all
  interfaces, not on the loopback address \<open>serve\<close> would choose.\<close>

theorem unset_bind_address_is_public:
  "rt_Host t \<noteq> '''' \<Longrightarrow> rt_BindAddress t = '''' \<Longrightarrow>
     local_addr (default_entry t) = ''0.0.0.0:'' @ itoa (rt_LocalPort t)"
  by (simp add: default_entry_def local_addr_def Let_def default_to_def JoinHostPort_def)

text \<open>Both kinds of tunnel pause alike.\<close>

theorem local_retry_pauses: "run_local second as = run_tunnel second as"
  by (simp only: local_run.loop_result reverse_run.loop_result)

text \<open>However often and in whatever order a tunnel of either kind is started and stopped, no call panics, and the wait
  group counts the starts.\<close>

theorem life_cycle_never_panics:
  "\<exists>r l. reverse_life.life cs (NewMulti cfg sshCfg forwards) = Ret r \<and> t_wg r = count_list cs True \<and>
     closed (t_stopCh r) = (False \<in> set cs) \<and>
     local_life.life cs (NewLocalForward cfg) = Ret l \<and> lf_wg l = count_list cs True \<and>
     closed (lf_stopCh l) = (False \<in> set cs)"
  using reverse_life.life_returns [of "NewMulti cfg sshCfg forwards" cs] local_life.life_returns [of "NewLocalForward cfg" cs]
  by (auto simp: NewMulti_def NewLocalForward_def)

end
