(* ===== verification/Logging.thy ===== *)
theory Logging
  imports Config Utf8
begin

text \<open>
  \<open>internal/log/log.go\<close>: the log levels, the handler that writes one compact line per record, and the
  construction of the logger from the configuration. An attribute is its key and the text of its value.
\<close>

section \<open>Levels\<close>

text \<open>\<open>slog.Level\<close> is an integer with four named values; levels compare as their integers.\<close>

datatype Level = Level (level_no: int)

instantiation Level :: linorder
begin

definition less_eq_Level :: "Level \<Rightarrow> Level \<Rightarrow> bool" where
  "less_eq_Level a b \<longleftrightarrow> level_no a \<le> level_no b"

definition less_Level :: "Level \<Rightarrow> Level \<Rightarrow> bool" where
  "less_Level a b \<longleftrightarrow> level_no a < level_no b"

instance
  by standard (auto simp: less_eq_Level_def less_Level_def Level.expand)

end

definition LevelDebug :: Level where
  "LevelDebug = Level (- 4)"

definition LevelInfo :: Level where
  "LevelInfo = Level 0"

definition LevelWarn :: Level where
  "LevelWarn = Level 4"

definition LevelError :: Level where
  "LevelError = Level 8"

lemmas level_defs = LevelDebug_def LevelInfo_def LevelWarn_def LevelError_def

section \<open>Quoting\<close>

text \<open>
  The verb \<open>%q\<close> of \<open>fmt\<close> (\<open>strconv.Quote\<close>). \<open>printable\<close> is \<open>unicode.IsPrint\<close> outside ASCII.
\<close>

definition hex_digit :: "nat \<Rightarrow> char" where
  "hex_digit d = ''0123456789abcdef'' ! d"

definition hex :: "nat \<Rightarrow> nat \<Rightarrow> string" where
  "hex w n = map (\<lambda>i. hex_digit (n div 16 ^ (w - 1 - i) mod 16)) [0..<w]"

definition quote_ascii :: "char \<Rightarrow> string" where
  "quote_ascii c =
     (let b = of_char c :: nat in
      if c = CHR 0x22 \<or> c = backslash then [backslash, c]
      else if b = 7 then [backslash, CHR ''a'']
      else if b = 8 then [backslash, CHR ''b'']
      else if b = 9 then [backslash, CHR ''t'']
      else if b = 10 then [backslash, CHR ''n'']
      else if b = 11 then [backslash, CHR ''v'']
      else if b = 12 then [backslash, CHR ''f'']
      else if b = 13 then [backslash, CHR ''r'']
      else if b < 32 \<or> b = 127 then [backslash, CHR ''x''] @ hex 2 b
      else [c])"

text \<open>The rune at the start of a string: \<open>bs\<close> are its bytes.\<close>

definition quote_rune :: "(nat \<Rightarrow> bool) \<Rightarrow> nat \<Rightarrow> string \<Rightarrow> string" where
  "quote_rune printable r bs =
     (if length bs = 1 \<and> r = rune_error then [backslash, CHR ''x''] @ hex 2 (of_char (hd bs))
      else if r < 128 then quote_ascii (hd bs)
      else if printable r then bs
      else if r < 65536 then [backslash, CHR ''u''] @ hex 4 r
      else [backslash, CHR ''U''] @ hex 8 r)"

function quote_runes :: "(nat \<Rightarrow> bool) \<Rightarrow> string \<Rightarrow> string" where
  "quote_runes printable [] = []"
| "quote_runes printable (c # s) =
     (let (r, w) = rune_at (c # s) in
      quote_rune printable r (take w (c # s)) @ quote_runes printable (drop w (c # s)))"
  by pat_completeness auto
termination
proof (relation "measure (\<lambda>(p, s). length s)")
  fix p :: "nat \<Rightarrow> bool" and c s x r w
  assume "x = rune_at (c # s)" and "(r, w) = x"
  then have "1 \<le> w" using rune_at_width [of c s] by (metis snd_conv)
  then show "((p, drop w (c # s)), p, c # s) \<in> measure (\<lambda>(p, s). length s)" by simp
qed simp

definition quoted_string :: "(nat \<Rightarrow> bool) \<Rightarrow> string \<Rightarrow> string" where
  "quoted_string printable s = CHR 0x22 # quote_runes printable s @ [CHR 0x22]"

section \<open>Parsing and showing levels\<close>

definition ParseLevel :: "(nat \<Rightarrow> bool) \<Rightarrow> string \<Rightarrow> Level \<times> error option" where
  "ParseLevel printable s =
     (let l = to_lower s in
      if l = ''debug'' then (LevelDebug, None)
      else if l = ''info'' then (LevelInfo, None)
      else if l = ''warn'' then (LevelWarn, None)
      else if l = ''error'' then (LevelError, None)
      else (LevelInfo, Some (''unknown log level: '' @ quoted_string printable s @
              '' (valid: debug, info, warn, error)'')))"

definition escape :: "string \<Rightarrow> string" where
  "escape s = CHR 0x1B # ''['' @ s @ ''m''"

definition colorReset :: string where
  "colorReset = escape ''0''"

definition levelColor :: "Level \<Rightarrow> string" where
  "levelColor level =
     (if level = LevelError then escape ''31''
      else if level = LevelWarn then escape ''33''
      else if level = LevelInfo then escape ''32''
      else if level = LevelDebug then escape ''36''
      else '''')"

definition levelLabel :: "Level \<Rightarrow> string" where
  "levelLabel level =
     (if level = LevelError then ''ERROR''
      else if level = LevelWarn then ''WARN ''
      else if level = LevelInfo then ''INFO ''
      else if level = LevelDebug then ''DEBUG''
      else ''     '')"

section \<open>The compact handler\<close>

type_synonym attr = "string \<times> string"

record compactHandler =
  ch_level :: Level
  ch_color :: bool
  ch_preAttrs :: "attr list"
  ch_group :: string

text \<open>A record carries its time of day; the layout shows hours to milliseconds, each zero-padded.\<close>

record LogRecord =
  lr_Hour :: nat
  lr_Minute :: nat
  lr_Second :: nat
  lr_Nanosecond :: nat
  lr_Level :: Level
  lr_Message :: string
  lr_Attrs :: "attr list"

definition padded :: "nat \<Rightarrow> nat \<Rightarrow> string" where
  "padded w n = replicate (w - length (nat_dec n)) CHR ''0'' @ nat_dec n"

definition time_text :: "LogRecord \<Rightarrow> string" where
  "time_text r = padded 2 (lr_Hour r) @ '':'' @ padded 2 (lr_Minute r) @ '':'' @ padded 2 (lr_Second r) @ ''.'' @
     padded 3 (lr_Nanosecond r div 1000000)"

definition Enabled :: "compactHandler \<Rightarrow> Level \<Rightarrow> bool" where
  "Enabled h level \<longleftrightarrow> level \<ge> ch_level h"

definition writeAttr :: "compactHandler \<Rightarrow> attr \<Rightarrow> string" where
  "writeAttr h a =
     (let key = (if ch_group h \<noteq> '''' then ch_group h @ ''.'' @ fst a else fst a) in key @ ''='' @ snd a)"

text \<open>The line a record is written as.\<close>

definition Handle :: "compactHandler \<Rightarrow> LogRecord \<Rightarrow> string" where
  "Handle h r =
     time_text r @ '' '' @
     (if ch_color h then levelColor (lr_Level r) else '''') @ levelLabel (lr_Level r) @
     (if ch_color h then colorReset else '''') @ '' '' @ lr_Message r @
     concat (map (\<lambda>a. CHR '' '' # writeAttr h a) (ch_preAttrs h)) @
     concat (map (\<lambda>a. CHR '' '' # writeAttr h a) (lr_Attrs r)) @ [newline]"

definition WithAttrs :: "attr list \<Rightarrow> compactHandler \<Rightarrow> compactHandler" where
  "WithAttrs attrs h = h\<lparr>ch_preAttrs := ch_preAttrs h @ attrs\<rparr>"

definition WithGroup :: "string \<Rightarrow> compactHandler \<Rightarrow> compactHandler" where
  "WithGroup name h =
     (if name = '''' then h
      else if ch_group h \<noteq> '''' then h\<lparr>ch_group := ch_group h @ ''.'' @ name\<rparr>
      else h\<lparr>ch_group := name\<rparr>)"

section \<open>The logger of the program\<close>

record LogFile =
  lf_Filename :: string
  lf_MaxSize :: int
  lf_MaxAge :: int
  lf_MaxBackups :: int
  lf_Compress :: bool

datatype log_sink = Stdout | Stderr | ToFile LogFile

text \<open>\<open>JSONHandler\<close> is the library's.\<close>

datatype log_handler = JSONHandler Level log_sink | CompactHandler compactHandler log_sink

definition open_sink :: "(nat \<Rightarrow> bool) \<Rightarrow> LoggingConfig \<Rightarrow> error + log_sink \<times> bool" where
  "open_sink printable cfg =
     (if lc_Output cfg = ''stdout'' then Inr (Stdout, True)
      else if lc_Output cfg = ''stderr'' then Inr (Stderr, True)
      else if lc_Output cfg = ''file''
      then Inr (ToFile \<lparr>lf_Filename = lc_FilePath cfg, lf_MaxSize = lc_MaxSizeMB cfg, lf_MaxAge = lc_MaxAgeDays cfg,
                  lf_MaxBackups = lc_MaxBackups cfg, lf_Compress = lc_Compress cfg\<rparr>, False)
      else Inl (''unknown log output: '' @ quoted_string printable (lc_Output cfg) @ '' (valid: stdout, stderr, file)''))"

definition NewLogger :: "(nat \<Rightarrow> bool) \<Rightarrow> LoggingConfig \<Rightarrow> error + log_handler" where
  "NewLogger printable cfg =
     (case ParseLevel printable (lc_Level cfg) of
        (level, Some e) \<Rightarrow> Inl e
      | (level, None) \<Rightarrow>
          (case open_sink printable cfg of
             Inl e \<Rightarrow> Inl e
           | Inr (w, color) \<Rightarrow>
               if lc_Format cfg = ''json'' then Inr (JSONHandler level w)
               else if lc_Format cfg = ''text''
               then Inr (CompactHandler \<lparr>ch_level = level, ch_color = color, ch_preAttrs = [], ch_group = ''''\<rparr> w)
               else Inl (''unknown log format: '' @ quoted_string printable (lc_Format cfg) @ '' (valid: text, json)'')))"

section \<open>Lemmas\<close>

lemma ParseLevel_ok:
  "snd (ParseLevel p s) = None \<longleftrightarrow> to_lower s \<in> {''debug'', ''info'', ''warn'', ''error''}"
  by (simp add: ParseLevel_def Let_def)

lemma open_sink_ok: "\<not> isl (open_sink p cfg) \<longleftrightarrow> lc_Output cfg \<in> {''stdout'', ''stderr'', ''file''}"
  by (simp add: open_sink_def)

text \<open>A handler as a program builds it from another: attributes and groups in any order.\<close>

datatype attach = Attrs "attr list" | Group string

fun attached_to :: "attach list \<Rightarrow> compactHandler \<Rightarrow> compactHandler" where
  "attached_to [] h = h"
| "attached_to (Attrs as # ops) h = attached_to ops (WithAttrs as h)"
| "attached_to (Group g # ops) h = attached_to ops (WithGroup g h)"

text \<open>What \<open>slog\<close> asks of a handler: a group qualifies the attributes attached after it.\<close>

definition qualify :: "string \<Rightarrow> attr \<Rightarrow> string" where
  "qualify g a = (if g = '''' then fst a else g @ ''.'' @ fst a) @ ''='' @ snd a"

definition nest :: "string \<Rightarrow> string \<Rightarrow> string" where
  "nest g name = (if name = '''' then g else if g = '''' then name else g @ ''.'' @ name)"

fun slog_attrs :: "attach list \<Rightarrow> string \<Rightarrow> string list \<times> string" where
  "slog_attrs [] g = ([], g)"
| "slog_attrs (Attrs as # ops) g = (let (ws, g') = slog_attrs ops g in (map (qualify g) as @ ws, g'))"
| "slog_attrs (Group name # ops) g = slog_attrs ops (nest g name)"

definition written_attrs :: "compactHandler \<Rightarrow> string list" where
  "written_attrs h = map (writeAttr h) (ch_preAttrs h)"

lemma writeAttr_qualify: "writeAttr h a = qualify (ch_group h) a"
  by (simp add: writeAttr_def qualify_def Let_def)

lemma WithGroup_group: "ch_group (WithGroup n h) = nest (ch_group h) n"
  "ch_preAttrs (WithGroup n h) = ch_preAttrs h"
  by (simp_all add: WithGroup_def nest_def)

definition no_groups :: "attach list \<Rightarrow> bool" where
  "no_groups ops = list_all (\<lambda>op. case op of Attrs as \<Rightarrow> True | Group g \<Rightarrow> False) ops"

lemma attached_no_groups:
  "no_groups ops \<Longrightarrow> ch_group (attached_to ops h) = ch_group h \<and> snd (slog_attrs ops g) = g \<and>
     written_attrs (attached_to ops h) = written_attrs h @ fst (slog_attrs ops (ch_group h))"
proof (induction ops h rule: attached_to.induct)
  case (2 as ops h)
  have q: "writeAttr (WithAttrs as h) = writeAttr h" by (auto simp: WithAttrs_def writeAttr_def)
  have "map (writeAttr h) as = map (qualify (ch_group h)) as" by (simp add: writeAttr_qualify)
  then have "written_attrs (WithAttrs as h) = written_attrs h @ map (qualify (ch_group h)) as"
    unfolding written_attrs_def q by (simp add: WithAttrs_def)
  moreover have "ch_group (WithAttrs as h) = ch_group h" by (simp add: WithAttrs_def)
  ultimately show ?case using 2 by (simp add: no_groups_def split_beta)
qed (simp_all add: no_groups_def)

lemma attached_groups:
  "ch_preAttrs h = [] \<Longrightarrow> ch_preAttrs (attached_to (map Group gs) h) = [] \<and>
     slog_attrs (map Group gs @ ops) (ch_group h) = slog_attrs ops (ch_group (attached_to (map Group gs) h))"
proof (induction gs arbitrary: h)
  case (Cons g gs)
  from Cons.IH [of "WithGroup g h"] Cons.prems show ?case by (simp add: WithGroup_group)
qed simp

lemma attached_append: "attached_to (as @ bs) h = attached_to bs (attached_to as h)"
  by (induction as h rule: attached_to.induct) simp_all

section \<open>Properties\<close>

text \<open>C36. A logger is made exactly when the configured level, output and format are known ones (the level in any
  case); with the defaults filled in, a configuration without a logging section gives one that writes compact
  coloured lines of level \<open>info\<close> and above to standard output.\<close>

theorem logger_of_a_configuration:
  "(\<not> isl (NewLogger p cfg)) =
     (to_lower (lc_Level cfg) \<in> {''debug'', ''info'', ''warn'', ''error''} \<and>
      lc_Output cfg \<in> {''stdout'', ''stderr'', ''file''} \<and> lc_Format cfg \<in> {''json'', ''text''}) \<and>
   NewLogger p (Logging (applyDefaults zero_config)) =
     Inr (CompactHandler \<lparr>ch_level = LevelInfo, ch_color = True, ch_preAttrs = [], ch_group = ''''\<rparr> Stdout)"
proof
  obtain l e where pl: "ParseLevel p (lc_Level cfg) = (l, e)" by fastforce
  then have e: "e = None \<longleftrightarrow> to_lower (lc_Level cfg) \<in> {''debug'', ''info'', ''warn'', ''error''}"
    using ParseLevel_ok [of p "lc_Level cfg"] by simp
  show "(\<not> isl (NewLogger p cfg)) =
     (to_lower (lc_Level cfg) \<in> {''debug'', ''info'', ''warn'', ''error''} \<and>
      lc_Output cfg \<in> {''stdout'', ''stderr'', ''file''} \<and> lc_Format cfg \<in> {''json'', ''text''})"
  proof (cases e)
    case None
    then show ?thesis using e open_sink_ok [of p cfg]
      by (cases "open_sink p cfg") (auto simp: NewLogger_def pl split: if_splits)
  next
    case (Some x)
    then show ?thesis using e by (simp add: NewLogger_def pl)
  qed
next
  have "Logging (applyDefaults zero_config) = default_logging (Logging zero_config)"
    by (simp add: applyDefaults_def Let_def)
  moreover have "to_lower ''info'' = ''info''" by code_simp
  ultimately show "NewLogger p (Logging (applyDefaults zero_config)) =
     Inr (CompactHandler \<lparr>ch_level = LevelInfo, ch_color = True, ch_preAttrs = [], ch_group = ''''\<rparr> Stdout)"
    by (simp add: NewLogger_def ParseLevel_def open_sink_def default_logging_def default_to_def zero_config_def)
qed

text \<open>A handler that opens its groups first writes its attributes as \<open>slog\<close> specifies them: in the order they
  were attached, each qualified by the groups that were open.\<close>

theorem attributes_are_qualified:
  assumes "no_groups ops" and "ch_preAttrs h = []"
  shows "written_attrs (attached_to (map Group gs @ ops) h) = fst (slog_attrs (map Group gs @ ops) (ch_group h))"
  using attached_no_groups [OF assms(1)] attached_groups [OF assms(2), of gs ops]
  by (simp add: attached_append written_attrs_def)

definition plain_handler :: compactHandler where
  "plain_handler = \<lparr>ch_level = LevelInfo, ch_color = False, ch_preAttrs = [], ch_group = ''''\<rparr>"

theorem attributes_are_qualified_witness:
  "written_attrs (attached_to [Group ''http'', Attrs [(''port'', ''80'')]] plain_handler) = [''http.port=80'']"
  using attributes_are_qualified [of "[Attrs [(''port'', ''80'')]]" plain_handler "[''http'']"]
  by (simp add: no_groups_def plain_handler_def qualify_def nest_def)

text \<open>A group opened later is wrongly put before attributes that were attached earlier.\<close>

theorem later_group_captures_attributes:
  "written_attrs (attached_to [Attrs [(''port'', ''COM3'')], Group ''ssh''] plain_handler) = [''ssh.port=COM3''] \<and>
   fst (slog_attrs [Attrs [(''port'', ''COM3'')], Group ''ssh''] (ch_group plain_handler)) = [''port=COM3'']"
  by (simp add: written_attrs_def plain_handler_def WithAttrs_def WithGroup_def writeAttr_def qualify_def nest_def)

text \<open>A record is one line, if its message and attributes hold no line break.\<close>

theorem record_is_one_line:
  assumes "newline \<notin> set (lr_Message r)"
    and "\<forall>a \<in> set (ch_preAttrs h @ lr_Attrs r). newline \<notin> set (fst a) \<union> set (snd a)"
    and "newline \<notin> set (ch_group h)"
  shows "split_on newline (Handle h r) = [butlast (Handle h r), []]"
proof -
  have n: "newline \<notin> set (nat_dec k)" for k using nat_dec_digits [of newline k] by (auto simp: is_digit_def)
  then have t: "newline \<notin> set (time_text r)" by (auto simp: time_text_def padded_def)
  have l: "newline \<notin> set (levelColor v)" "newline \<notin> set (levelLabel v)" "newline \<notin> set colorReset" for v
    by (auto simp: levelColor_def levelLabel_def colorReset_def escape_def)
  have a: "newline \<notin> set (writeAttr h x)" if "x \<in> set (ch_preAttrs h @ lr_Attrs r)" for x
    using that assms(2,3) by (auto simp: writeAttr_def Let_def)
  have c: "newline \<notin> set (concat (map (\<lambda>x. CHR '' '' # writeAttr h x) xs))"
    if "set xs \<subseteq> set (ch_preAttrs h @ lr_Attrs r)" for xs
    using that a by (induction xs) auto
  obtain s where s: "Handle h r = s @ [newline]" by (simp add: Handle_def)
  then have "newline \<notin> set s"
    using assms(1) t l c [of "ch_preAttrs h"] c [of "lr_Attrs r"]
    by (auto simp: Handle_def simp del: set_concat set_map split: if_splits)
  from split_on_append [OF this, of "[]"] show ?thesis by (simp add: s)
qed

end
