(* ===== verification/Cmd.thy ===== *)
theory Cmd
  imports HttpApi LocalForward Logging
begin

text \<open>
  The two programs. \<open>cmd/serial-gateway\<close> loads the configuration, starts the ports and every configured tunnel,
  serves, and stops all of it on an interrupt; \<open>cmd/tunnel-ports\<close> prints the tunnels the gateway would start.
  A tunnel is kept with the name it is logged under.
\<close>

section \<open>Forwards for the serial ports\<close>

text \<open>\<open>seen\<close> holds the ports that have a forward already.\<close>

fun serial_forwards :: "Config \<Rightarrow> int set \<Rightarrow> PortConfig list \<Rightarrow> ForwardSpec list" where
  "serial_forwards cfg seen [] = []"
| "serial_forwards cfg seen (p # ps) =
     (let prt = PortMapping (pc_Device p) cfg in
      if prt = 0 then serial_forwards cfg seen ps
      else if prt \<in> seen then serial_forwards cfg seen ps
      else \<lparr>Label = pc_Device p, RemotePort = prt, TargetHost = ''127.0.0.1'', TargetPort = prt\<rparr> #
           serial_forwards cfg (insert prt seen) ps)"

definition buildSerialSSHForwards :: "Config \<Rightarrow> ForwardSpec list" where
  "buildSerialSSHForwards cfg = serial_forwards cfg {} (Ports cfg)"

section \<open>Starting the tunnels\<close>

datatype Tunnel = Reverse ReverseTunnel | Local LocalForward

text \<open>\<open>None\<close> when there is nothing to forward.\<close>

definition startReverseTunnel :: "ReverseTunnelConfig \<Rightarrow> Config \<Rightarrow> Tunnel option" where
  "startReverseTunnel rtCfg cfg =
     (if rt_Kind rtCfg = ''local_forward'' then Some (Local (StartLocal (NewLocalForward rtCfg)))
      else if rt_Kind rtCfg = ''serial_ssh'' then
        (let forwards = buildSerialSSHForwards cfg in
         if length forwards = 0 then None
         else Some (Reverse (StartTunnel (NewMulti rtCfg (Some (SSH cfg)) forwards))))
      else Some (Reverse (StartTunnel (New rtCfg (Some (SSH cfg))))))"

definition start_named :: "string \<Rightarrow> ReverseTunnelConfig \<Rightarrow> Config \<Rightarrow> (string \<times> Tunnel) list" where
  "start_named name rtCfg cfg =
     (case startReverseTunnel rtCfg cfg of None \<Rightarrow> [] | Some t \<Rightarrow> [(name, t)])"

definition entry_name :: "nat \<Rightarrow> ReverseTunnelConfig \<Rightarrow> string" where
  "entry_name i rt =
     (if rt_Name rt = '''' then ''reverse_tunnels['' @ itoa (int i) @ '']'' else rt_Name rt)"

fun start_entries :: "nat \<Rightarrow> ReverseTunnelConfig list \<Rightarrow> Config \<Rightarrow> (string \<times> Tunnel) list" where
  "start_entries i [] cfg = []"
| "start_entries i (rt # rts) cfg =
     (if rt_Host rt = '''' then start_entries (Suc i) rts cfg
      else start_named (entry_name i rt) rt cfg @ start_entries (Suc i) rts cfg)"

text \<open>The named serial tunnel has its kind set on the way; \<open>start_tunnels\<close> also gives the configuration afterwards.\<close>

definition force_serial_kind :: "Config \<Rightarrow> Config" where
  "force_serial_kind cfg =
     (if rt_Host (SerialSSHTunnel cfg) \<noteq> ''''
      then cfg\<lparr>SerialSSHTunnel := (SerialSSHTunnel cfg)\<lparr>rt_Kind := ''serial_ssh''\<rparr>\<rparr> else cfg)"

definition start_tunnels :: "Config \<Rightarrow> (string \<times> Tunnel) list \<times> Config" where
  "start_tunnels cfg =
     (let t1 = (if rt_Host (ReverseTunnel cfg) \<noteq> '''' then start_named ''reverse_tunnel'' (ReverseTunnel cfg) cfg else []);
          t2 = (if rt_Host (AdbReverseTunnel cfg) \<noteq> ''''
                then start_named ''adb_reverse_tunnel'' (AdbReverseTunnel cfg) cfg else []);
          cfg' = force_serial_kind cfg;
          t3 = (if rt_Host (SerialSSHTunnel cfg') \<noteq> ''''
                then start_named ''serial_ssh_tunnel'' (SerialSSHTunnel cfg') cfg' else []);
          t4 = start_entries 0 (ReverseTunnels cfg') cfg'
      in (t1 @ t2 @ t3 @ t4, cfg'))"

section \<open>The gateway\<close>

text \<open>What the program meets when it starts: the config file, the YAML decoder, the flag, the key file, and the rest.\<close>

record boot_env =
  config_file :: read_result
  yaml :: "bytes \<Rightarrow> Config \<Rightarrow> error + Config"
  http_port_flag :: int
  key_file :: "bytes option"
  ports_env :: start_env
  is_print :: "nat \<Rightarrow> bool"

record Program =
  pr_logger :: log_handler
  pr_pm :: PortManager
  pr_tunnels :: "(string \<times> Tunnel) list"
  pr_gateway :: Gateway

definition override_port :: "int \<Rightarrow> Config \<Rightarrow> Config" where
  "override_port n cfg = (if n \<noteq> 0 then cfg\<lparr>Gateway := (Gateway cfg)\<lparr>HTTPPort := n\<rparr>\<rparr> else cfg)"

text \<open>
  \<open>main\<close> up to its wait for the interrupt: the message on standard error with which it exits, or the running
  program. \<open>AutoStart\<close> never returns an error.
\<close>

definition main_start :: "boot_env \<Rightarrow> (string + Program) outcome" where
  "main_start env =
     (case Load (yaml env) (config_file env) of
        Inl e \<Rightarrow> Ret (Inl (''failed to load config: '' @ e @ [newline]))
      | Inr loaded \<Rightarrow>
          (let cfg = override_port (http_port_flag env) loaded in
           case NewLogger (is_print env) (Logging cfg) of
             Inl e \<Rightarrow> Ret (Inl (''failed to initialize logger: '' @ e @ [newline]))
           | Inr logger \<Rightarrow>
               then_do (AutoStart (ports_env env) (NewPortManager cfg (key_file env))) (\<lambda>pm.
                 (let (tunnels, cfg') = start_tunnels cfg in
                  Ret (Inr \<lparr>pr_logger = logger, pr_pm = pm, pr_tunnels = tunnels,
                            pr_gateway = NewGatewayWithManager cfg' pm\<rparr>)))))"

definition stop_tunnel :: "Tunnel \<Rightarrow> Tunnel outcome" where
  "stop_tunnel t =
     (case t of
        Reverse r \<Rightarrow> then_do (StopTunnel r) (\<lambda>r'. Ret (Reverse r'))
      | Local l \<Rightarrow> then_do (StopLocal l) (\<lambda>l'. Ret (Local l')))"

fun stop_tunnels :: "(string \<times> Tunnel) list \<Rightarrow> (string \<times> Tunnel) list outcome" where
  "stop_tunnels [] = Ret []"
| "stop_tunnels ((n, t) # ts) =
     then_do (stop_tunnel t) (\<lambda>t'. then_do (stop_tunnels ts) (\<lambda>ts'. Ret ((n, t') # ts')))"

text \<open>After the interrupt: the tunnels in order, then the ports.\<close>

definition main_stop :: "Program \<Rightarrow> Program outcome" where
  "main_stop pr = then_do (stop_tunnels (pr_tunnels pr)) (\<lambda>ts.
     Ret (pr\<lparr>pr_tunnels := ts, pr_pm := Shutdown (pr_pm pr)\<rparr>))"

section \<open>The listing of tunnels\<close>

record tunnelTarget =
  tt_Name :: string
  tt_Host :: string
  tt_Port :: int
  tt_User :: string
  tt_PrivateKeyFile :: string
  tt_RemotePorts :: "int list"
  tt_LocalPort :: int

record listing =
  out_HTTPPort :: int
  out_LogFile :: string
  out_Tunnels :: "tunnelTarget list"

fun target_ports :: "Config \<Rightarrow> int set \<Rightarrow> PortConfig list \<Rightarrow> int list" where
  "target_ports cfg seen [] = []"
| "target_ports cfg seen (p # ps) =
     (let prt = PortMapping (pc_Device p) cfg in
      if prt = 0 then target_ports cfg seen ps
      else if prt \<in> seen then target_ports cfg seen ps
      else prt # target_ports cfg (insert prt seen) ps)"

definition buildTarget :: "string \<Rightarrow> ReverseTunnelConfig \<Rightarrow> Config \<Rightarrow> tunnelTarget" where
  "buildTarget name rt cfg =
     (let t = \<lparr>tt_Name = name, tt_Host = rt_Host rt, tt_Port = rt_Port rt, tt_User = rt_User rt,
               tt_PrivateKeyFile = rt_PrivateKeyFile rt, tt_RemotePorts = [], tt_LocalPort = 0\<rparr> in
      if rt_Kind rt = ''local_forward'' then t\<lparr>tt_LocalPort := rt_LocalPort rt\<rparr>
      else if rt_Kind rt = ''serial_ssh'' then t\<lparr>tt_RemotePorts := target_ports cfg {} (Ports cfg)\<rparr>
      else t\<lparr>tt_RemotePorts := [rt_RemotePort rt]\<rparr>)"

text \<open>The loop over the three named tunnels sets the kind of the serial one in place.\<close>

fun named_targets :: "(string \<times> ReverseTunnelConfig) list \<Rightarrow> Config \<Rightarrow> tunnelTarget list" where
  "named_targets [] cfg = []"
| "named_targets ((name, rt) # ns) cfg =
     (if rt_Host rt = '''' then named_targets ns cfg
      else (let rt' = (if name = ''serial_ssh_tunnel'' then rt\<lparr>rt_Kind := ''serial_ssh''\<rparr> else rt) in
        buildTarget name rt' cfg # named_targets ns cfg))"

fun entry_targets :: "nat \<Rightarrow> ReverseTunnelConfig list \<Rightarrow> Config \<Rightarrow> tunnelTarget list" where
  "entry_targets i [] cfg = []"
| "entry_targets i (rt # rts) cfg =
     (if rt_Host rt = '''' then entry_targets (Suc i) rts cfg
      else buildTarget (entry_name i rt) rt cfg # entry_targets (Suc i) rts cfg)"

definition list_tunnels :: "(bytes \<Rightarrow> Config \<Rightarrow> error + Config) \<Rightarrow> read_result \<Rightarrow> string + listing" where
  "list_tunnels unmarshal file =
     (case Load unmarshal file of
        Inl e \<Rightarrow> Inl (''failed to load config: '' @ e @ [newline])
      | Inr cfg \<Rightarrow> Inr \<lparr>out_HTTPPort = HTTPPort (Gateway cfg), out_LogFile = lc_FilePath (Logging cfg),
          out_Tunnels =
            named_targets [(''reverse_tunnel'', ReverseTunnel cfg), (''adb_reverse_tunnel'', AdbReverseTunnel cfg),
                (''serial_ssh_tunnel'', SerialSSHTunnel cfg)] cfg @
            entry_targets 0 (ReverseTunnels cfg) cfg\<rparr>)"

section \<open>Lemmas on the forwards\<close>

lemma PortMapping_cong: "SSH c' = SSH c \<Longrightarrow> PortMapping d c' = PortMapping d c"
  by (auto simp: PortMapping_def split: option.split)

lemma target_ports_cong: "SSH c' = SSH c \<Longrightarrow> target_ports c' seen ps = target_ports c seen ps"
  by (induction ps arbitrary: seen) (simp_all add: PortMapping_cong [of c' c] Let_def)

lemma serial_forwards_ports: "map RemotePort (serial_forwards cfg seen ps) = target_ports cfg seen ps"
  by (induction ps arbitrary: seen) (simp_all add: Let_def)

lemma serial_forwards_unseen: "f \<in> set (serial_forwards cfg seen ps) \<Longrightarrow> RemotePort f \<notin> seen"
proof (induction ps arbitrary: seen)
  case (Cons a ps)
  show ?case
    using Cons.prems Cons.IH [of seen] Cons.IH [of "insert (PortMapping (pc_Device a) cfg) seen"]
    by (simp add: Let_def split: if_splits) (elim disjE, simp_all)
qed simp

lemma serial_forwards_spec:
  "f \<in> set (serial_forwards cfg seen ps) \<Longrightarrow>
     RemotePort f = PortMapping (Label f) cfg \<and> TargetPort f = RemotePort f \<and> RemotePort f \<noteq> 0 \<and>
     TargetHost f = ''127.0.0.1'' \<and> Label f \<in> pc_Device ` set ps"
proof (induction ps arbitrary: seen)
  case (Cons a ps)
  show ?case
    using Cons.prems Cons.IH [of seen] Cons.IH [of "insert (PortMapping (pc_Device a) cfg) seen"]
    by (simp add: Let_def split: if_splits) (elim disjE, simp_all)
qed simp

lemma serial_forwards_complete:
  "p \<in> set ps \<Longrightarrow> PortMapping (pc_Device p) cfg \<noteq> 0 \<Longrightarrow>
     PortMapping (pc_Device p) cfg \<in> seen \<union> RemotePort ` set (serial_forwards cfg seen ps)"
proof (induction ps arbitrary: seen)
  case (Cons a ps)
  show ?case
  proof (cases "p = a")
    case True
    then show ?thesis using Cons.prems by (auto simp: Let_def)
  next
    case False
    then have "PortMapping (pc_Device p) cfg \<in> s \<union> RemotePort ` set (serial_forwards cfg s ps)" for s
      using Cons by simp
    from this [of seen] this [of "insert (PortMapping (pc_Device a) cfg) seen"]
    show ?thesis by (auto simp: Let_def)
  qed
qed simp

lemma serial_forwards_distinct: "distinct (map RemotePort (serial_forwards cfg seen ps))"
proof (induction ps arbitrary: seen)
  case (Cons p ps)
  have "PortMapping (pc_Device p) cfg \<notin>
      RemotePort ` set (serial_forwards cfg (insert (PortMapping (pc_Device p) cfg) seen) ps)"
    using serial_forwards_unseen by (metis imageE insertI1)
  then show ?case using Cons.IH by (simp add: Let_def)
qed simp

section \<open>Lemmas on the listing\<close>

text \<open>The remote listeners of the tunnels that run, and of the tunnels that are listed; and the local ones.\<close>

definition remote_listeners :: "(string \<times> Tunnel) list \<Rightarrow> (string \<times> string \<times> int list) list" where
  "remote_listeners ts = concat (map (\<lambda>(n, t).
     case t of Reverse r \<Rightarrow> [(n, rt_Host (t_cfg r), remotePorts r)] | Local l \<Rightarrow> []) ts)"

definition local_listeners :: "(string \<times> Tunnel) list \<Rightarrow> (string \<times> int) list" where
  "local_listeners ts = concat (map (\<lambda>(n, t).
     case t of Reverse r \<Rightarrow> [] | Local l \<Rightarrow> if rt_LocalPort (lf_cfg l) = 0 then [] else [(n, rt_LocalPort (lf_cfg l))]) ts)"

definition listed_remote :: "tunnelTarget list \<Rightarrow> (string \<times> string \<times> int list) list" where
  "listed_remote ts = concat (map (\<lambda>t.
     if tt_RemotePorts t = [] then [] else [(tt_Name t, tt_Host t, tt_RemotePorts t)]) ts)"

definition listed_local :: "tunnelTarget list \<Rightarrow> (string \<times> int) list" where
  "listed_local ts = concat (map (\<lambda>t. if tt_LocalPort t = 0 then [] else [(tt_Name t, tt_LocalPort t)]) ts)"

lemma listeners_append [simp]:
  "remote_listeners (xs @ ys) = remote_listeners xs @ remote_listeners ys" "remote_listeners [] = []"
  "local_listeners (xs @ ys) = local_listeners xs @ local_listeners ys" "local_listeners [] = []"
  "listed_remote (us @ vs) = listed_remote us @ listed_remote vs" "listed_remote [] = []"
  "listed_local (us @ vs) = listed_local us @ listed_local vs" "listed_local [] = []"
  by (simp_all add: remote_listeners_def local_listeners_def listed_remote_def listed_local_def)

lemma listed_Cons:
  "listed_remote (t # ts) = listed_remote [t] @ listed_remote ts"
  "listed_local (t # ts) = listed_local [t] @ listed_local ts"
  by (simp_all add: listed_remote_def listed_local_def)

lemma start_named_listed:
  "remote_listeners (start_named n rt cfg) = listed_remote [buildTarget n rt cfg] \<and>
   local_listeners (start_named n rt cfg) = listed_local [buildTarget n rt cfg]"
proof -
  have p: "map RemotePort (buildSerialSSHForwards cfg) = target_ports cfg {} (Ports cfg)"
    by (simp add: buildSerialSSHForwards_def serial_forwards_ports)
  then have e: "buildSerialSSHForwards cfg = [] \<longleftrightarrow> target_ports cfg {} (Ports cfg) = []"
    by (metis list.map_disc_iff)
  show ?thesis
    using p e
    by (auto simp: start_named_def startReverseTunnel_def buildTarget_def Let_def remote_listeners_def
        local_listeners_def listed_remote_def listed_local_def StartLocal_def NewLocalForward_def StartTunnel_def
        NewMulti_def New_def remotePorts_def)
qed

lemma start_entries_listed:
  "remote_listeners (start_entries i rts cfg) = listed_remote (entry_targets i rts cfg) \<and>
   local_listeners (start_entries i rts cfg) = listed_local (entry_targets i rts cfg)"
proof (induction rts arbitrary: i)
  case (Cons rt rts)
  then show ?case
    using start_named_listed [of "entry_name i rt" rt cfg]
      listed_Cons [of "buildTarget (entry_name i rt) rt cfg" "entry_targets (Suc i) rts cfg"]
    by simp
qed simp

lemma buildTarget_cong: "SSH c' = SSH c \<Longrightarrow> Ports c' = Ports c \<Longrightarrow> buildTarget n rt c' = buildTarget n rt c"
  by (simp add: buildTarget_def Let_def target_ports_cong [of c' c])

lemma entry_targets_cong:
  "SSH c' = SSH c \<Longrightarrow> Ports c' = Ports c \<Longrightarrow> entry_targets i rts c' = entry_targets i rts c"
  by (induction rts arbitrary: i) (simp_all add: buildTarget_cong [of c' c])

definition all_targets :: "Config \<Rightarrow> tunnelTarget list" where
  "all_targets cfg =
     named_targets [(''reverse_tunnel'', ReverseTunnel cfg), (''adb_reverse_tunnel'', AdbReverseTunnel cfg),
       (''serial_ssh_tunnel'', SerialSSHTunnel cfg)] cfg @ entry_targets 0 (ReverseTunnels cfg) cfg"

lemma force_serial_kind_frame [simp]:
  "SSH (force_serial_kind cfg) = SSH cfg" "Ports (force_serial_kind cfg) = Ports cfg"
  "ReverseTunnels (force_serial_kind cfg) = ReverseTunnels cfg"
  "rt_Host (SerialSSHTunnel (force_serial_kind cfg)) = rt_Host (SerialSSHTunnel cfg)"
  by (simp_all add: force_serial_kind_def)

lemma all_targets_append:
  "all_targets cfg =
     (if rt_Host (ReverseTunnel cfg) = '''' then [] else [buildTarget ''reverse_tunnel'' (ReverseTunnel cfg) cfg]) @
     (if rt_Host (AdbReverseTunnel cfg) = '''' then []
      else [buildTarget ''adb_reverse_tunnel'' (AdbReverseTunnel cfg) cfg]) @
     (if rt_Host (SerialSSHTunnel cfg) = '''' then []
      else [buildTarget ''serial_ssh_tunnel'' ((SerialSSHTunnel cfg)\<lparr>rt_Kind := ''serial_ssh''\<rparr>) cfg]) @
     entry_targets 0 (ReverseTunnels cfg) cfg"
  by (simp add: all_targets_def Let_def)

lemma start_tunnels_listed:
  "remote_listeners (fst (start_tunnels cfg)) = listed_remote (all_targets cfg) \<and>
   local_listeners (fst (start_tunnels cfg)) = listed_local (all_targets cfg)"
proof -
  let ?c = "force_serial_kind cfg"
  have s: "rt_Host (SerialSSHTunnel cfg) \<noteq> '''' \<Longrightarrow>
      SerialSSHTunnel ?c = (SerialSSHTunnel cfg)\<lparr>rt_Kind := ''serial_ssh''\<rparr>"
    by (simp add: force_serial_kind_def)
  have b: "buildTarget n rt ?c = buildTarget n rt cfg" for n rt by (rule buildTarget_cong) simp_all
  have e: "entry_targets i rts ?c = entry_targets i rts cfg" for i rts by (rule entry_targets_cong) simp_all
  note one = start_named_listed [of "''reverse_tunnel''" "ReverseTunnel cfg" cfg]
  note two = start_named_listed [of "''adb_reverse_tunnel''" "AdbReverseTunnel cfg" cfg]
  note three = start_named_listed [of "''serial_ssh_tunnel''" "SerialSSHTunnel ?c" ?c]
  note rest = start_entries_listed [of 0 "ReverseTunnels cfg" ?c]
  show ?thesis
    unfolding start_tunnels_def all_targets_append Let_def fst_conv
    using one two three rest s b e
    by (cases "rt_Host (ReverseTunnel cfg) = ''''"; cases "rt_Host (AdbReverseTunnel cfg) = ''''";
        cases "rt_Host (SerialSSHTunnel cfg) = ''''") (simp_all del: append_Cons)
qed

lemma override_port_targets: "all_targets (override_port n cfg) = all_targets cfg"
proof -
  have b: "buildTarget m rt (override_port n cfg) = buildTarget m rt cfg" for m rt
    by (rule buildTarget_cong) (simp_all add: override_port_def)
  have e: "entry_targets i rts (override_port n cfg) = entry_targets i rts cfg" for i rts
    by (rule entry_targets_cong) (simp_all add: override_port_def)
  have f: "ReverseTunnel (override_port n cfg) = ReverseTunnel cfg"
    "AdbReverseTunnel (override_port n cfg) = AdbReverseTunnel cfg"
    "SerialSSHTunnel (override_port n cfg) = SerialSSHTunnel cfg"
    "ReverseTunnels (override_port n cfg) = ReverseTunnels cfg"
    by (simp_all add: override_port_def)
  show ?thesis unfolding all_targets_def f e by (simp add: b)
qed

text \<open>The cases of a successful start.\<close>

lemma main_start_Inr:
  assumes "main_start env = Ret (Inr pr)"
  obtains cfg where "Load (yaml env) (config_file env) = Inr cfg"
    and "AutoStart (ports_env env) (NewPortManager (override_port (http_port_flag env) cfg) (key_file env)) = Ret (pr_pm pr)"
    and "pr_tunnels pr = fst (start_tunnels (override_port (http_port_flag env) cfg))"
    and "gw_cfg (pr_gateway pr) = snd (start_tunnels (override_port (http_port_flag env) cfg))"
    and "gw_pm (pr_gateway pr) = pr_pm pr"
  using assms unfolding main_start_def
  by (auto simp: Let_def then_do_eq_Ret NewGatewayWithManager_def split_beta split: sum.splits)

section \<open>Lemmas on the serial tunnels\<close>

lemma serial_forwards_cong: "SSH c' = SSH c \<Longrightarrow> serial_forwards c' seen ps = serial_forwards c seen ps"
  by (induction ps arbitrary: seen) (simp_all add: PortMapping_cong [of c' c] Let_def)

lemma buildSerial_cong:
  "SSH c' = SSH c \<Longrightarrow> Ports c' = Ports c \<Longrightarrow> buildSerialSSHForwards c' = buildSerialSSHForwards c"
  by (simp add: buildSerialSSHForwards_def serial_forwards_cong [of c' c])

lemma start_named_serial:
  "(n, Reverse t) \<in> set (start_named m rt cfg) \<Longrightarrow> rt_Kind (t_cfg t) = ''serial_ssh'' \<Longrightarrow>
     t_forwards t = buildSerialSSHForwards cfg"
  by (auto simp: start_named_def startReverseTunnel_def Let_def StartTunnel_def NewMulti_def New_def split: if_splits)

lemma start_entries_serial:
  "(n, Reverse t) \<in> set (start_entries i rts cfg) \<Longrightarrow> rt_Kind (t_cfg t) = ''serial_ssh'' \<Longrightarrow>
     t_forwards t = buildSerialSSHForwards cfg"
  by (induction rts arbitrary: i) (auto dest: start_named_serial split: if_splits)

lemma start_tunnels_serial:
  assumes "(n, Reverse t) \<in> set (fst (start_tunnels cfg))" and "rt_Kind (t_cfg t) = ''serial_ssh''"
  shows "t_forwards t = buildSerialSSHForwards cfg"
proof -
  have "buildSerialSSHForwards (force_serial_kind cfg) = buildSerialSSHForwards cfg"
    by (rule buildSerial_cong) simp_all
  then show ?thesis
    using assms by (auto simp: start_tunnels_def Let_def dest: start_named_serial start_entries_serial split: if_splits)
qed

text \<open>What a start leaves behind when the host key can be had and the history limit is not negative.\<close>

lemma main_start_ports:
  assumes "main_start env = Ret (Inr pr)" and "cfg = gw_cfg (pr_gateway pr)"
    and "0 \<le> rbc_MaxLines (Ring_Buffer cfg)" and "\<not> key_fails (ports_env env) (NewPortManager cfg (key_file env))"
  shows "auto_inv (ports_env env) (pr_pm pr) \<and> SSH (pm_cfg (pr_pm pr)) = SSH cfg \<and>
    (\<forall>d. GetServer d (pr_pm pr) \<noteq> None \<longleftrightarrow> d \<in> pc_Device ` set (Ports cfg) \<and> PortMapping d cfg \<noteq> 0) \<and>
    (\<forall>n t. (n, Reverse t) \<in> set (pr_tunnels pr) \<longrightarrow> rt_Kind (t_cfg t) = ''serial_ssh'' \<longrightarrow>
       t_forwards t = buildSerialSSHForwards cfg)"
proof -
  obtain c0 where a: "AutoStart (ports_env env) (NewPortManager (override_port (http_port_flag env) c0) (key_file env)) =
        Ret (pr_pm pr)"
      and t: "pr_tunnels pr = fst (start_tunnels (override_port (http_port_flag env) c0))"
      and g: "gw_cfg (pr_gateway pr) = snd (start_tunnels (override_port (http_port_flag env) c0))"
    using assms(1) by (rule main_start_Inr) blast
  define c where "c = override_port (http_port_flag env) c0"
  have cfg: "cfg = force_serial_kind c" using g assms(2) by (simp add: start_tunnels_def Let_def c_def)
  then have f: "SSH cfg = SSH c" "Ports cfg = Ports c" "Ring_Buffer cfg = Ring_Buffer c"
    by (simp_all add: force_serial_kind_def)
  have p: "PortMapping d cfg = PortMapping d c" for d using f(1) by (rule PortMapping_cong)
  have "\<not> key_fails (ports_env env) (NewPortManager c (key_file env))"
    using assms(4) by (simp add: key_fails_def NewPortManager_def)
  then have i: "auto_inv (ports_env env) (NewPortManager c (key_file env))"
    using assms(3) f(3) by (intro NewPortManager_auto) simp_all
  have e: "pm_cfg (NewPortManager c k) = c" "GetServer d (NewPortManager c k) = None" for d k
    by (simp_all add: NewPortManager_def GetServer_def)
  have r: "auto_ports (ports_env env) (Ports c) (NewPortManager c (key_file env)) = Ret (pr_pm pr)"
    using a unfolding AutoStart_def c_def [symmetric] e .
  note start = auto_ports_start [OF i, of "Ports c", unfolded e r]
  have "t_forwards tn = buildSerialSSHForwards cfg"
    if "(n, Reverse tn) \<in> set (pr_tunnels pr)" "rt_Kind (t_cfg tn) = ''serial_ssh''" for n tn
    using start_tunnels_serial that buildSerial_cong [OF f(1,2)] by (simp add: t c_def)
  then show ?thesis using start f p by auto
qed

section \<open>Lemmas on stopping\<close>

definition tunnel_sound :: "Tunnel \<Rightarrow> bool" where
  "tunnel_sound t = (case t of Reverse r \<Rightarrow> t_once r = closed (t_stopCh r) | Local l \<Rightarrow> lf_once l = closed (lf_stopCh l))"

definition tunnel_stopping :: "Tunnel \<Rightarrow> bool" where
  "tunnel_stopping t = (case t of Reverse r \<Rightarrow> closed (t_stopCh r) | Local l \<Rightarrow> closed (lf_stopCh l))"

lemma start_named_sound: "(n, t) \<in> set (start_named m rt cfg) \<Longrightarrow> tunnel_sound t"
  by (auto simp: start_named_def startReverseTunnel_def Let_def tunnel_sound_def StartLocal_def StartTunnel_def
      NewLocalForward_def New_def NewMulti_def split: if_splits)

lemma start_entries_sound: "(n, t) \<in> set (start_entries i rts cfg) \<Longrightarrow> tunnel_sound t"
  by (induction rts arbitrary: i) (auto dest: start_named_sound split: if_splits)

lemma start_tunnels_sound: "(n, t) \<in> set (fst (start_tunnels cfg)) \<Longrightarrow> tunnel_sound t"
  by (auto simp: start_tunnels_def Let_def dest: start_named_sound start_entries_sound split: if_splits)

lemma stop_tunnel_sound: "tunnel_sound t \<Longrightarrow> \<exists>t'. stop_tunnel t = Ret t' \<and> tunnel_sound t' \<and> tunnel_stopping t'"
proof (cases t)
  case (Reverse r)
  then show "tunnel_sound t \<Longrightarrow> ?thesis"
    using reverse_life.stop_law [of r] by (auto simp: tunnel_sound_def tunnel_stopping_def stop_tunnel_def)
next
  case (Local l)
  then show "tunnel_sound t \<Longrightarrow> ?thesis"
    using local_life.stop_law [of l] by (auto simp: tunnel_sound_def tunnel_stopping_def stop_tunnel_def)
qed

lemma stop_tunnels_sound:
  "\<forall>(n, t) \<in> set ts. tunnel_sound t \<Longrightarrow>
     \<exists>ts'. stop_tunnels ts = Ret ts' \<and> map fst ts' = map fst ts \<and> (\<forall>(n, t) \<in> set ts'. tunnel_stopping t)"
proof (induction ts)
  case (Cons x ts)
  obtain n t where x: "x = (n, t)" by fastforce
  obtain t' where "stop_tunnel t = Ret t'" "tunnel_stopping t'"
    using stop_tunnel_sound [of t] Cons.prems by (auto simp: x)
  moreover obtain ts' where "stop_tunnels ts = Ret ts'" "map fst ts' = map fst ts"
      "\<forall>(n, t) \<in> set ts'. tunnel_stopping t"
    using Cons by auto
  ultimately show ?case by (simp add: x)
qed simp

section \<open>Properties\<close>


text \<open>A serial tunnel without forwardable ports is listed, with no port, although the gateway does not start it.\<close>

theorem idle_serial_tunnel_is_listed:
  "rt_Kind rt = ''serial_ssh'' \<Longrightarrow> buildSerialSSHForwards cfg = [] \<Longrightarrow>
     start_named n rt cfg = [] \<and> tt_RemotePorts (buildTarget n rt cfg) = [] \<and> tt_Name (buildTarget n rt cfg) = n"
  using start_named_listed [of n rt cfg]
  by (auto simp: start_named_def startReverseTunnel_def buildTarget_def Let_def remote_listeners_def listed_remote_def
      split: if_splits)

section \<open>Witnesses\<close>

definition demo_config :: Config where
  "demo_config = lab_config
     \<lparr>ReverseTunnel := zero_tunnel\<lparr>rt_Host := ''relay'', rt_Password := ''pw''\<rparr>,
      ReverseTunnels :=
        [zero_tunnel\<lparr>rt_Name := ''opencli'', rt_Kind := ''local_forward'', rt_Host := ''relay'', rt_LocalPort := 19825,
           rt_RemotePort := 19825\<rparr>,
         zero_tunnel\<lparr>rt_Kind := ''serial_ssh'', rt_Host := ''relay''\<rparr>]\<rparr>"

definition demo_env :: boot_env where
  "demo_env = \<lparr>config_file = ReadOk [], yaml = (\<lambda>_ _. Inr demo_config), http_port_flag = 9000,
     key_file = None, ports_env = lab_env, is_print = (\<lambda>_. True)\<rparr>"

definition demo_program :: Program where
  "demo_program = (case main_start demo_env of Ret (Inr pr) \<Rightarrow> pr | _ \<Rightarrow> undefined)"

lemma demo_starts: "main_start demo_env = Ret (Inr demo_program)"
proof -
  have "case main_start demo_env of Ret (Inr pr) \<Rightarrow> True | _ \<Rightarrow> False" by code_simp
  then show ?thesis
    unfolding demo_program_def by (cases "main_start demo_env") (auto split: sum.splits)
qed

definition demo_listing :: listing where
  "demo_listing = (case list_tunnels (yaml demo_env) (config_file demo_env) of Inr out \<Rightarrow> out | Inl e \<Rightarrow> undefined)"

lemma demo_lists: "list_tunnels (yaml demo_env) (config_file demo_env) = Inr demo_listing"
proof -
  have "Load (yaml demo_env) (config_file demo_env) = Inr (applyDefaults demo_config)" by (simp add: demo_env_def)
  then show ?thesis by (simp add: demo_listing_def list_tunnels_def)
qed


theorem idle_serial_tunnel_is_listed_witness:
  "tt_Name (buildTarget ''serial_ssh_tunnel'' (zero_tunnel\<lparr>rt_Kind := ''serial_ssh''\<rparr>) zero_config) = ''serial_ssh_tunnel''"
proof -
  have "buildSerialSSHForwards zero_config = []"
    by (simp add: buildSerialSSHForwards_def zero_config_def)
  then show ?thesis
    using idle_serial_tunnel_is_listed [of "zero_tunnel\<lparr>rt_Kind := ''serial_ssh''\<rparr>" zero_config] by simp
qed

end
