(* ===== verification/Spec2Isabelle.thy ===== *)
theory Spec2Isabelle
  imports Config Recorder SessionLive Exec SshHandler Notify Capture Cmd
begin

text \<open>
  A verification development for the serial gateway, a Go server that shares the serial ports of a machine
  over SSH and HTTP, records what they print, and makes them reachable from elsewhere through SSH tunnels.

  \<^bold>\<open>The program.\<close> \<open>cmd/serial-gateway\<close> loads a YAML configuration and builds a port manager. For each configured
  device the manager holds an SSH server, which holds a serial session, to which a file recorder may be attached. A session
  has a reader, a writer and, after a failure, a reconnecting goroutine; its output is broadcast to
  subscribers (SSH connections and command streams), recorded, cut into lines and kept in a ring buffer.
  The HTTP API changes the manager's table, reads the history, writes to sessions and shows notifications.
  Tunnels run beside all this: reverse tunnels open listeners on a remote SSH server, local forwards listen
  here, and a reverse tunnel may bridge SSH sessions to a target host. \<open>cmd/tunnel-ports\<close> prints the tunnels of a
  configuration.

  \<^bold>\<open>The theories\<close>, in the order the program is layered, with the code they model:

  \<^item> \<open>Prelude\<close>, \<open>GoStrings\<close>, \<open>Utf8\<close>, \<open>Channels\<close>: what the model uses of Go: results that may panic (\<open>outcome\<close>), 64-bit
    integers with the wrap-around written out (\<open>wrap64\<close>), the functions of \<open>strings\<close> and \<open>strconv\<close>, the decoding of
    UTF-8, and buffered channels with the locale \<open>fifo\<close>.
  \<^item> \<open>Config\<close> (\<open>internal/config/config.go\<close>): the configuration and its defaults. The lemmas show that the defaults are
    complete, idempotent and never change what the user set.
  \<^item> \<open>RingBuffer\<close> (\<open>internal/serial/ringbuffer.go\<close>): the bounded history, with the locale \<open>history\<close>: it holds the longest
    suffix of the appended entries that fits both limits.
  \<^item> \<open>LineReader\<close> (the inner loop of \<open>readLoop\<close> in \<open>internal/serial/session.go\<close>): cutting, cleaning, numbering and
    storing lines; how the stream is chopped into reads is invisible.
  \<^item> \<open>Recorder\<close> (\<open>internal/recorder/recorder.go\<close>): the queue, the write loop and the trimming of the file, with the
    outcome of each file operation as an input, and the locale \<open>byte_sink\<close> through which a session sees it.
  \<^item> \<open>Session\<close>, \<open>SessionMachine\<close>, \<open>SessionRuns\<close>, \<open>SessionLive\<close> (\<open>internal/serial/session.go\<close>): the session's state and
    operations; its goroutines as a step relation over every interleaving of lock regions and channel operations; executable
    runs; and the invariants: one handle, one reader, answered requests, recovery.
  \<^item> \<open>Capture\<close>: a session and its recorder composed, refining an abstract bounded tape.
  \<^item> \<open>SshServer\<close>, \<open>SshHandler\<close> (\<open>internal/ssh\<close>): port numbers, host key, start and stop of a device's server; the
    three goroutines of a connection, with the input array they share.
  \<^item> \<open>PortManager\<close> (\<open>internal/core/portmanager.go\<close>): the table of servers and recorders, with the locale \<open>registry\<close>.
  \<^item> \<open>HttpApi\<close>, \<open>Exec\<close>, \<open>Notify\<close> (\<open>internal/http\<close>, \<open>internal/serial/port.go\<close>, \<open>internal/notify\<close>): routing and handlers;
    the command stream and what a client of an event stream reads from it; the notification from the request
    to the encoded command line, and that it can be read back from there.
  \<^item> \<open>TunnelBase\<close>, \<open>ProxyBridge\<close>, \<open>ReverseTunnel\<close>, \<open>LocalForward\<close> (\<open>internal/tunnel\<close>): the retry loop and the life cycle as the
    locales \<open>retrying\<close> and \<open>tunnel_interface\<close>, interpreted on both kinds of tunnel; the keepalive monitor; the
    set-up of a reverse tunnel with its deferred calls, and its accept loops as a step relation; the bridge.
  \<^item> \<open>Logging\<close> (\<open>internal/log/log.go\<close>): levels, the compact handler, and the making of the logger.
  \<^item> \<open>Cmd\<close> (\<open>cmd/serial-gateway\<close>, \<open>cmd/tunnel-ports\<close>): both programs as compositions of the above.
  \<^item> This theory: properties of the whole gateway.

  \<^bold>\<open>Conventions.\<close> A Go struct is a record with the source's field names, prefixed where two structs share one. An operation
  under one lock is one function on the state; a goroutine is a sequence of steps, one for each stretch between two
  operations others can interrupt. An error is its message; an operation that can panic returns an \<open>outcome\<close>.
  Loggers are left out of the states, because no code reads from them.

  \<^bold>\<open>Bounds.\<close> No definition needs fuel: every loop of the source either ends structurally or is a step relation or
  a function of the finite sequence of events it takes. Capacities are the source's: 64 requests and 64 messages in a session,
  256 chunks in a recorder, 8 accepted connections in a tunnel.

  \<^bold>\<open>Parameters.\<close> What lies outside the repository answers through arguments: the YAML and JSON decoders, the
  serial driver and enumerator, the SSH libraries, key generation, the file system and processes. \<open>unicode.IsPrint\<close> outside
  ASCII and the rendering of log attribute values and times to RFC 3339 are arguments too.

  \<^bold>\<open>Not modelled.\<close> \<open>StartHTTP\<close>, which only listens and serves \<open>Handler\<close>; the printing of the listing as JSON; the
  tickers and timers themselves, whose firing is an event; \<open>tests/vserial/driver.go\<close>, a helper for manual tests that is not part of
  the programs; the scripts and documents beside the Go code.
\<close>

section \<open>Properties across components\<close>

text \<open>C16. Every forward of a serial tunnel leads to a running SSH server of the gateway: the one of the device it is
  labelled with, on the same port on both sides; and every server started from the configuration is reached by one of
  the forwards, whose remote ports are pairwise different.\<close>

theorem serial_forwards_reach_running_servers:
  assumes "main_start env = Ret (Inr pr)" and "cfg = gw_cfg (pr_gateway pr)"
    and "0 \<le> rbc_MaxLines (Ring_Buffer cfg)" and "\<not> key_fails (ports_env env) (NewPortManager cfg (key_file env))"
    and "(n, Reverse t) \<in> set (pr_tunnels pr)" and "rt_Kind (t_cfg t) = ''serial_ssh''"
  shows "(\<forall>f \<in> set (t_forwards t). \<exists>srv. GetServer (Label f) (pr_pm pr) = Some srv \<and> IsRunning srv \<and>
      Port srv = TargetPort f \<and> RemotePort f = TargetPort f \<and> TargetHost f = ''127.0.0.1'') \<and>
    (\<forall>d srv. GetServer d (pr_pm pr) = Some srv \<longrightarrow> Port srv \<in> set (remotePorts t)) \<and>
    distinct (remotePorts t)"
proof -
  note start = main_start_ports [OF assms(1-4)]
  have fw: "t_forwards t = serial_forwards cfg {} (Ports cfg)"
    using start assms(5,6) by (simp add: buildSerialSSHForwards_def)
  have ssh: "SSH (pm_cfg (pr_pm pr)) = SSH cfg" using start by blast
  have srv: "running srv \<and> sshPort srv = PortMapping d cfg" if "GetServer d (pr_pm pr) = Some srv" for d srv
    using start map_of_SomeD [OF that [unfolded GetServer_def]] PortMapping_cong [OF ssh]
    by (auto simp: auto_inv_def pm_ok_def serves_def)
  have "\<exists>srv. GetServer (Label f) (pr_pm pr) = Some srv \<and> IsRunning srv \<and> Port srv = TargetPort f \<and>
      RemotePort f = TargetPort f \<and> TargetHost f = ''127.0.0.1''" if "f \<in> set (t_forwards t)" for f
  proof -
    have f: "RemotePort f = PortMapping (Label f) cfg" "TargetPort f = RemotePort f" "RemotePort f \<noteq> 0"
        "TargetHost f = ''127.0.0.1''" "Label f \<in> pc_Device ` set (Ports cfg)"
      using serial_forwards_spec [of f cfg "{}" "Ports cfg"] that fw by auto
    then obtain s where "GetServer (Label f) (pr_pm pr) = Some s" using start by fastforce
    then show ?thesis using srv f by (auto simp: IsRunning_def Port_def)
  qed
  moreover have "Port s \<in> set (remotePorts t)" if "GetServer d (pr_pm pr) = Some s" for d s
  proof -
    have "d \<in> pc_Device ` set (Ports cfg)" "PortMapping d cfg \<noteq> 0" using start that by fastforce+
    then show ?thesis
      using serial_forwards_complete [of _ "Ports cfg" cfg "{}"] srv [OF that]
      by (fastforce simp: remotePorts_def fw Port_def)
  qed
  moreover have "distinct (remotePorts t)"
    using serial_forwards_distinct [of cfg "{}" "Ports cfg"] by (simp add: remotePorts_def fw)
  ultimately show ?thesis by blast
qed


section \<open>Witnesses\<close>

lemma demo_facts:
  "0 \<le> rbc_MaxLines (Ring_Buffer (gw_cfg (pr_gateway demo_program)))"
  "\<not> key_fails (ports_env demo_env) (NewPortManager (gw_cfg (pr_gateway demo_program)) (key_file demo_env))"
  "list_ex (\<lambda>(n, t). case t of Reverse r \<Rightarrow> rt_Kind (t_cfg r) = ''serial_ssh'' \<and> remotePorts r = [2203, 2207] | Local l \<Rightarrow> False)
     (pr_tunnels demo_program)"
proof -
  have "let p = demo_program in
      0 \<le> rbc_MaxLines (Ring_Buffer (gw_cfg (pr_gateway p))) \<and>
      \<not> key_fails (ports_env demo_env) (NewPortManager (gw_cfg (pr_gateway p)) (key_file demo_env)) \<and>
      list_ex (\<lambda>(n, t). case t of Reverse r \<Rightarrow> rt_Kind (t_cfg r) = ''serial_ssh'' \<and> remotePorts r = [2203, 2207] | Local l \<Rightarrow> False)
        (pr_tunnels p)"
    by code_simp
  then show
    "0 \<le> rbc_MaxLines (Ring_Buffer (gw_cfg (pr_gateway demo_program)))"
    "\<not> key_fails (ports_env demo_env) (NewPortManager (gw_cfg (pr_gateway demo_program)) (key_file demo_env))"
    "list_ex (\<lambda>(n, t). case t of Reverse r \<Rightarrow> rt_Kind (t_cfg r) = ''serial_ssh'' \<and> remotePorts r = [2203, 2207] | Local l \<Rightarrow> False)
       (pr_tunnels demo_program)"
    by (simp_all add: Let_def)
qed

theorem serial_forwards_reach_running_servers_witness:
  "\<exists>n t. (n, Reverse t) \<in> set (pr_tunnels demo_program) \<and> remotePorts t = [2203, 2207] \<and> distinct (remotePorts t)"
proof -
  obtain n t where t: "(n, Reverse t) \<in> set (pr_tunnels demo_program)" "rt_Kind (t_cfg t) = ''serial_ssh''"
      "remotePorts t = [2203, 2207]"
    using demo_facts(3) by (fastforce simp: list_ex_iff split: Tunnel.splits)
  then show ?thesis
    using serial_forwards_reach_running_servers [OF demo_starts HOL.refl demo_facts(1,2) t(1,2)] by blast
qed


end
